theory Spec2Isabelle
  imports Complex_Main "HOL-Library.Word"
begin

section \<open>Go values used by both exporters\<close>

text \<open>
  The repository holds two exporters, each a Go package \<open>main\<close>: the cached exporter
  (\<open>self-process-exporter\<close>, background refresh of a PID cache) and \<open>node-process\<close>
  (full enumeration on every scrape). Both declare \<open>ProcessCollector\<close>,
  \<open>NewProcessCollector\<close>, \<open>Collect\<close> and \<open>main\<close>; the second package's names carry
  the suffix \<open>_node\<close> here.
\<close>

type_synonym int32 = "32 word"
type_synonym int64 = "64 word"
type_synonym uint64 = "64 word"

text \<open>A Go \<open>error\<close> value; only its message is ever used (by \<open>%v\<close> in log lines).\<close>

datatype error = Error string

fun error_msg :: "error \<Rightarrow> string" where
  "error_msg (Error s) = s"

subsection \<open>\<open>float64\<close>\<close>

text \<open>
  \<open>float64\<close> is IEEE 754 binary64: a finite value, an infinity or NaN. A finite value is
  given by the real number it stands for; the two zeros are one value here (they differ
  only as divisors, and no divisor of the exporters can be the negative zero) and NaN
  has no payload.

  Every arithmetic operation and every conversion from an integer yields the exact
  result rounded to the nearest value of the format, ties to the even significand
  (\<open>round64\<close>): 53 significant bits, the exponent of the last place not below \<open>-1074\<close>
  (gradual underflow), and an infinity where the rounded value reaches \<open>2 ^ 1024\<close>.
  \<open>exponent a\<close> is the \<open>k\<close> with \<open>2 ^ k \<le> a < 2 ^ (k + 1)\<close>, found by halving or doubling
  \<open>a\<close>; its 1100 steps cover every magnitude that rounds to a finite non-zero value.
\<close>

datatype float64 = Fin real | PosInf | NegInf | NaN

definition round_half_even :: "real \<Rightarrow> int" where
  "round_half_even r =
     (let f = \<lfloor>r\<rfloor>; d = r - of_int f
      in if d < 1 / 2 then f else if 1 / 2 < d then f + 1 else if even f then f else f + 1)"

fun exponent_up :: "nat \<Rightarrow> real \<Rightarrow> int" where
  "exponent_up 0 a = 0"
| "exponent_up (Suc n) a = (if 2 \<le> a then exponent_up n (a / 2) + 1 else 0)"

fun exponent_down :: "nat \<Rightarrow> real \<Rightarrow> int" where
  "exponent_down 0 a = 0"
| "exponent_down (Suc n) a = (if a < 1 then exponent_down n (a * 2) - 1 else 0)"

definition exponent :: "real \<Rightarrow> int" where
  "exponent a = (if 1 \<le> a then exponent_up 1100 a else exponent_down 1100 a)"

definition round64 :: "real \<Rightarrow> float64" where
  "round64 x =
     (if x = 0 then Fin 0
      else
        let a = \<bar>x\<bar>;
            e = max (exponent a - 52) (- 1074);
            m = round_half_even (a / 2 powi e);
            y = of_int m * 2 powi e
        in if 2 powi 1024 \<le> y then (if 0 < x then PosInf else NegInf)
           else Fin (if 0 < x then y else - y))"

text \<open>The operators \<open>/\<close> and \<open>*\<close> on \<open>float64\<close>.\<close>

fun float64_div :: "float64 \<Rightarrow> float64 \<Rightarrow> float64" where
  "float64_div (Fin a) (Fin b) =
     (if b \<noteq> 0 then round64 (a / b)
      else if a = 0 then NaN
      else if 0 < a then PosInf else NegInf)"
| "float64_div (Fin a) PosInf = Fin 0"
| "float64_div (Fin a) NegInf = Fin 0"
| "float64_div PosInf (Fin b) = (if 0 \<le> b then PosInf else NegInf)"
| "float64_div NegInf (Fin b) = (if 0 \<le> b then NegInf else PosInf)"
| "float64_div x y = NaN"

fun float64_mul :: "float64 \<Rightarrow> float64 \<Rightarrow> float64" where
  "float64_mul (Fin a) (Fin b) = round64 (a * b)"
| "float64_mul PosInf (Fin b) = (if b = 0 then NaN else if 0 < b then PosInf else NegInf)"
| "float64_mul NegInf (Fin b) = (if b = 0 then NaN else if 0 < b then NegInf else PosInf)"
| "float64_mul (Fin a) PosInf = (if a = 0 then NaN else if 0 < a then PosInf else NegInf)"
| "float64_mul (Fin a) NegInf = (if a = 0 then NaN else if 0 < a then NegInf else PosInf)"
| "float64_mul PosInf PosInf = PosInf"
| "float64_mul NegInf NegInf = PosInf"
| "float64_mul PosInf NegInf = NegInf"
| "float64_mul NegInf PosInf = NegInf"
| "float64_mul x y = NaN"

text \<open>The comparison \<open>x > 0\<close>; false on NaN.\<close>

fun float64_gt_zero :: "float64 \<Rightarrow> bool" where
  "float64_gt_zero (Fin a) = (0 < a)"
| "float64_gt_zero PosInf = True"
| "float64_gt_zero NegInf = False"
| "float64_gt_zero NaN = False"

text \<open>
  The conversions \<open>float64(x)\<close> from \<open>uint64\<close>, \<open>int32\<close>, \<open>int64\<close> and \<open>int\<close>: the integer,
  rounded (an integer of magnitude up to \<open>2 ^ 53\<close> is kept as it is).
\<close>

definition float64_of_uint64 :: "uint64 \<Rightarrow> float64" where
  "float64_of_uint64 w = round64 (real (unat w))"

definition float64_of_int32 :: "int32 \<Rightarrow> float64" where
  "float64_of_int32 w = round64 (real_of_int (sint w))"

definition float64_of_int64 :: "int64 \<Rightarrow> float64" where
  "float64_of_int64 w = round64 (real_of_int (sint w))"

definition float64_of_int :: "int \<Rightarrow> float64" where
  "float64_of_int i = round64 (real_of_int i)"

subsection \<open>\<open>strings\<close>, \<open>strconv\<close> and \<open>unicode/utf8\<close>\<close>

text \<open>A Go string is its bytes: \<open>string\<close>, a list of 8-bit characters.\<close>

fun strings_HasPrefix :: "string \<Rightarrow> string \<Rightarrow> bool" where
  "strings_HasPrefix s [] = True"
| "strings_HasPrefix [] (c # cs) = False"
| "strings_HasPrefix (x # xs) (c # cs) = (x = c \<and> strings_HasPrefix xs cs)"

fun strings_Contains :: "string \<Rightarrow> string \<Rightarrow> bool" where
  "strings_Contains [] substr = (substr = [])"
| "strings_Contains (x # xs) substr =
     (strings_HasPrefix (x # xs) substr \<or> strings_Contains xs substr)"

definition digit_char :: "nat \<Rightarrow> char" where
  "digit_char d = char_of (48 + d)"

fun format_nat :: "nat \<Rightarrow> string" where
  "format_nat n =
     (if n < 10 then [digit_char n] else format_nat (n div 10) @ [digit_char (n mod 10)])"

declare format_nat.simps [simp del]

definition strconv_Itoa :: "int \<Rightarrow> string" where
  "strconv_Itoa i =
     (if i < 0 then CHR ''-'' # format_nat (nat (- i)) else format_nat (nat i))"

text \<open>
  \<open>utf8.ValidString\<close>: the bytes are a sequence of well-formed UTF-8 encodings. A byte
  below \<open>0x80\<close> stands alone; a lead byte \<open>0xC2\<close> to \<open>0xF4\<close> takes one, two or three
  continuation bytes \<open>0x80\<close> to \<open>0xBF\<close>, the first of them in a narrower range after
  \<open>0xE0\<close>, \<open>0xED\<close>, \<open>0xF0\<close> and \<open>0xF4\<close> (no overlong form, no surrogate, nothing above
  \<open>U+10FFFF\<close>); every other byte in lead position is invalid.
\<close>

definition continuation_byte :: "nat \<Rightarrow> bool" where
  "continuation_byte b \<longleftrightarrow> 128 \<le> b \<and> b \<le> 191"

definition second_byte :: "nat \<Rightarrow> nat \<Rightarrow> bool" where
  "second_byte b0 b1 \<longleftrightarrow>
     (if b0 = 224 then 160 \<le> b1 \<and> b1 \<le> 191
      else if b0 = 237 then 128 \<le> b1 \<and> b1 \<le> 159
      else if b0 = 240 then 144 \<le> b1 \<and> b1 \<le> 191
      else if b0 = 244 then 128 \<le> b1 \<and> b1 \<le> 143
      else 128 \<le> b1 \<and> b1 \<le> 191)"

fun valid_utf8 :: "nat list \<Rightarrow> bool" where
  "valid_utf8 [] = True"
| "valid_utf8 (b0 # bs) =
     (if b0 < 128 then valid_utf8 bs
      else if 194 \<le> b0 \<and> b0 \<le> 223 then
        (case bs of
           b1 # rest \<Rightarrow> second_byte b0 b1 \<and> valid_utf8 rest
         | _ \<Rightarrow> False)
      else if 224 \<le> b0 \<and> b0 \<le> 239 then
        (case bs of
           b1 # b2 # rest \<Rightarrow> second_byte b0 b1 \<and> continuation_byte b2 \<and> valid_utf8 rest
         | _ \<Rightarrow> False)
      else if 240 \<le> b0 \<and> b0 \<le> 244 then
        (case bs of
           b1 # b2 # b3 # rest \<Rightarrow>
             second_byte b0 b1 \<and> continuation_byte b2 \<and> continuation_byte b3 \<and> valid_utf8 rest
         | _ \<Rightarrow> False)
      else False)"

definition utf8_ValidString :: "string \<Rightarrow> bool" where
  "utf8_ValidString s = valid_utf8 (map of_char s)"

text \<open>
  \<open>strings.ToLower\<close> and \<open>strings.TrimSpace\<close>. On a string of bytes below \<open>0x80\<close> both
  take their ASCII path, given here in full: the letters \<open>A\<close> to \<open>Z\<close> are mapped, the six
  ASCII white-space bytes are trimmed at both ends. On any other string they work by
  the Unicode tables of the Go library (case mapping, \<open>unicode.IsSpace\<close>, \<open>U+FFFD\<close> for
  bytes that are not UTF-8), which are no part of this repository: what they return
  there is the parameter \<open>GoUnicode\<close> of everything that calls them.
\<close>

record GoUnicode =
  unicode_ToLower :: "string \<Rightarrow> string"
  unicode_TrimSpace :: "string \<Rightarrow> string"

definition is_ascii :: "string \<Rightarrow> bool" where
  "is_ascii s = list_all (\<lambda>ch. (of_char ch :: nat) < 128) s"

definition lower_byte :: "char \<Rightarrow> char" where
  "lower_byte ch =
     (let n = (of_char ch :: nat) in if 65 \<le> n \<and> n \<le> 90 then char_of (n + 32) else ch)"

definition strings_ToLower :: "GoUnicode \<Rightarrow> string \<Rightarrow> string" where
  "strings_ToLower U s = (if is_ascii s then map lower_byte s else unicode_ToLower U s)"

definition is_space :: "char \<Rightarrow> bool" where
  "is_space ch = ((of_char ch :: nat) \<in> {9, 10, 11, 12, 13, 32})"

definition strings_TrimSpace :: "GoUnicode \<Rightarrow> string \<Rightarrow> string" where
  "strings_TrimSpace U s =
     (if is_ascii s then rev (dropWhile is_space (rev (dropWhile is_space s)))
      else unicode_TrimSpace U s)"

definition strings_HasSuffix :: "string \<Rightarrow> string \<Rightarrow> bool" where
  "strings_HasSuffix s suffix =
     (length suffix \<le> length s \<and> drop (length s - length suffix) s = suffix)"

definition strings_TrimSuffix :: "string \<Rightarrow> string \<Rightarrow> string" where
  "strings_TrimSuffix s suffix =
     (if strings_HasSuffix s suffix then take (length s - length suffix) s else s)"

text \<open>\<open>strings.Split(s, ",")\<close>: the separator of the source is the one byte \<open>,\<close>.\<close>

fun strings_Split :: "string \<Rightarrow> char \<Rightarrow> string list" where
  "strings_Split [] sep = [[]]"
| "strings_Split (x # xs) sep =
     (if x = sep then [] # strings_Split xs sep
      else (case strings_Split xs sep of
              [] \<Rightarrow> [[x]]
            | w # ws \<Rightarrow> (x # w) # ws))"

subsection \<open>The Prometheus client: descriptors and constant metrics\<close>

text \<open>
  \<open>prometheus.NewDesc(fqName, help, variableLabels, nil)\<close> and
  \<open>prometheus.MustNewConstMetric(desc, valueType, value, labelValues...)\<close>. The second
  panics where \<open>NewConstMetric\<close> returns an error: the descriptor is invalid, the number
  of label values differs from the descriptor's number of variable labels, or a label
  value is not valid UTF-8. \<open>None\<close> is the panic. The descriptors of both exporters are
  made from constant, well-formed names, so a \<open>Desc\<close> here is always a valid one.
\<close>

record Desc =
  fqName :: string
  helpText :: string
  variableLabels :: "string list"

definition NewDesc :: "string \<Rightarrow> string \<Rightarrow> string list \<Rightarrow> Desc" where
  "NewDesc fq h ls = \<lparr>fqName = fq, helpText = h, variableLabels = ls\<rparr>"

datatype ValueType = CounterValue | GaugeValue

record Metric =
  metric_desc :: Desc
  metric_valueType :: ValueType
  metric_value :: float64
  metric_labelValues :: "string list"

definition MustNewConstMetric ::
  "Desc \<Rightarrow> ValueType \<Rightarrow> float64 \<Rightarrow> string list \<Rightarrow> Metric option" where
  "MustNewConstMetric d vt v lvs =
     (if length lvs = length (variableLabels d) \<and> list_all utf8_ValidString lvs
      then Some \<lparr>metric_desc = d, metric_valueType = vt, metric_value = v,
                 metric_labelValues = lvs\<rparr>
      else None)"

text \<open>
  What one call of \<open>Collect\<close> has done so far: the metrics sent on \<open>ch\<close>, the lines
  logged, and whether the call has panicked. A panic inside \<open>Collect\<close> is never
  recovered by the exporters: the call does nothing more (and the Go runtime ends the
  process). So \<open>ch <- MustNewConstMetric(...)\<close> and \<open>log.Printf(...)\<close> leave a panicked
  call as it is, and the loops of \<open>Collect\<close> stop at a panicked call.
\<close>

record Scrape =
  sent :: "Metric list"
  logged :: "string list"
  panicked :: bool

definition new_scrape :: Scrape where
  "new_scrape = \<lparr>sent = [], logged = [], panicked = False\<rparr>"

definition send :: "Scrape \<Rightarrow> Metric option \<Rightarrow> Scrape" where
  "send st m =
     (if panicked st then st
      else case m of
             None \<Rightarrow> st\<lparr>panicked := True\<rparr>
           | Some x \<Rightarrow> st\<lparr>sent := sent st @ [x]\<rparr>)"

definition log_Printf :: "Scrape \<Rightarrow> string \<Rightarrow> Scrape" where
  "log_Printf st line = (if panicked st then st else st\<lparr>logged := logged st @ [line]\<rparr>)"

subsection \<open>The process source (gopsutil)\<close>

text \<open>
  \<open>process.Process\<close> is a handle on one PID; the exporters read its \<open>Pid\<close> and call its
  query methods. Each query returns \<open>(value, error)\<close>: \<open>Inl\<close> is the error.
  A \<open>ProcessSource\<close> is what the operating system answers during one call of
  \<open>refreshProcessCache\<close> or \<open>Collect\<close>; two calls at different times get two sources.
\<close>

record Process =
  Pid :: int32

record TimesStat =
  User :: float64
  System :: float64

record MemoryInfoStat =
  RSS :: uint64
  VMS :: uint64

record IOCountersStat =
  ReadBytes :: uint64
  WriteBytes :: uint64

record VirtualMemoryStat =
  Total :: uint64

record OpenFilesStat =
  Path :: string
  Fd :: uint64

record ProcessSource =
  process_Processes :: "error + Process list"
  Process_Name :: "Process \<Rightarrow> error + string"
  Process_Times :: "Process \<Rightarrow> error + TimesStat"
  Process_MemoryInfo :: "Process \<Rightarrow> error + MemoryInfoStat"
  Process_NumThreads :: "Process \<Rightarrow> error + int32"
  Process_NumFDs :: "Process \<Rightarrow> error + int32"
  Process_CreateTime :: "Process \<Rightarrow> error + int64"
  Process_Cmdline :: "Process \<Rightarrow> error + string"
  Process_Username :: "Process \<Rightarrow> error + string"
  Process_CPUPercent :: "Process \<Rightarrow> error + float64"
  Process_OpenFiles :: "Process \<Rightarrow> error + OpenFilesStat list"
  Process_IOCounters :: "Process \<Rightarrow> error + IOCountersStat"
  mem_VirtualMemory :: "error + VirtualMemoryStat"

section \<open>The cached exporter\<close>

record CachedProcess =
  Proc :: Process
  Name :: string

text \<open>
  \<open>ProcessCollector\<close>: the target names, the cache (a Go map from PID to entry) and the
  eight descriptors. The \<open>rwMutex\<close> field guards \<open>cachedProcs\<close> between goroutines; it
  plays no part where one function runs alone, and is a part of the world of the two
  goroutines further down.
\<close>

record ProcessCollector =
  targetNames :: "string list"
  cachedProcs :: "int32 \<rightharpoonup> CachedProcess"
  up :: Desc
  cpuUser :: Desc
  cpuSystem :: Desc
  memoryRSS :: Desc
  memoryVMS :: Desc
  numThreads :: Desc
  openFDs :: Desc
  startTime :: Desc

definition NewProcessCollector :: "string list \<Rightarrow> ProcessCollector" where
  "NewProcessCollector names =
     \<lparr>targetNames = names,
      cachedProcs = Map.empty,
      up = NewDesc ''process_up'' ''Whether the process is running (1) or not (0).''
             [''process_name'', ''pid''],
      cpuUser = NewDesc ''process_cpu_user_seconds_total''
             ''Total user CPU time spent in seconds.'' [''process_name'', ''pid''],
      cpuSystem = NewDesc ''process_cpu_system_seconds_total''
             ''Total system CPU time spent in seconds.'' [''process_name'', ''pid''],
      memoryRSS = NewDesc ''process_memory_rss_bytes''
             ''Resident memory size in bytes.'' [''process_name'', ''pid''],
      memoryVMS = NewDesc ''process_memory_vms_bytes''
             ''Virtual memory size in bytes.'' [''process_name'', ''pid''],
      numThreads = NewDesc ''process_num_threads''
             ''Total number of threads.'' [''process_name'', ''pid''],
      openFDs = NewDesc ''process_open_fds''
             ''Number of open file descriptors.'' [''process_name'', ''pid''],
      startTime = NewDesc ''process_start_time_seconds''
             ''Start time of the process since unix epoch in seconds.''
             [''process_name'', ''pid'']\<rparr>"

text \<open>\<open>Describe\<close> sends the eight descriptors, in this order.\<close>

definition Describe :: "ProcessCollector \<Rightarrow> Desc list" where
  "Describe c =
     [up c, cpuUser c, cpuSystem c, memoryRSS c, memoryVMS c, numThreads c, openFDs c,
      startTime c]"

text \<open>\<open>isTarget\<close>: the loop over \<open>targetNames\<close>, returning at the first hit.\<close>

fun isTarget_range :: "string list \<Rightarrow> string \<Rightarrow> bool" where
  "isTarget_range [] procName = False"
| "isTarget_range (target # rest) procName =
     (if strings_Contains procName target then True else isTarget_range rest procName)"

definition isTarget :: "ProcessCollector \<Rightarrow> string \<Rightarrow> bool" where
  "isTarget c procName = isTarget_range (targetNames c) procName"

text \<open>
  The loop of \<open>refreshProcessCache\<close> over \<open>allProcs\<close>, filling \<open>newCache\<close>: a process
  whose \<open>Name()\<close> fails is passed over (\<open>continue\<close>), a target is stored under its PID.
\<close>

fun refresh_range ::
  "ProcessCollector \<Rightarrow> ProcessSource \<Rightarrow> Process list \<Rightarrow> (int32 \<rightharpoonup> CachedProcess)
   \<Rightarrow> (int32 \<rightharpoonup> CachedProcess)" where
  "refresh_range c os [] newCache = newCache"
| "refresh_range c os (p # ps) newCache =
     (case Process_Name os p of
        Inl err \<Rightarrow> refresh_range c os ps newCache
      | Inr name \<Rightarrow>
          if isTarget c name
          then refresh_range c os ps (newCache(Pid p \<mapsto> \<lparr>Proc = p, Name = name\<rparr>))
          else refresh_range c os ps newCache)"

text \<open>
  \<open>refreshProcessCache\<close> returns the collector after the call and the lines it logged.
  It has no path that ends the process: no \<open>log.Fatal\<close>, no panic.
\<close>

definition refreshProcessCache ::
  "ProcessCollector \<Rightarrow> ProcessSource \<Rightarrow> ProcessCollector \<times> string list" where
  "refreshProcessCache c os =
     (case process_Processes os of
        Inl err \<Rightarrow> (c, [''Error scanning processes: '' @ error_msg err])
      | Inr allProcs \<Rightarrow>
          (c\<lparr>cachedProcs := refresh_range c os allProcs Map.empty\<rparr>, []))"

text \<open>
  The body of the loop of \<open>Collect\<close> for one cached entry, sending on \<open>ch\<close>. A failing
  \<open>Times()\<close> is the \<open>continue\<close>: nothing is sent for the entry. The other four queries
  are guarded by \<open>err == nil\<close> one by one, and the \<open>up\<close> sample with the constant 1 is
  sent last.
\<close>

definition collect_target ::
  "ProcessCollector \<Rightarrow> ProcessSource \<Rightarrow> CachedProcess \<Rightarrow> Scrape \<Rightarrow> Scrape" where
  "collect_target c os target ch =
     (let p = Proc target; name = Name target; pidStr = strconv_Itoa (sint (Pid p)) in
      case Process_Times os p of
        Inl err \<Rightarrow> ch
      | Inr cpu_times \<Rightarrow>
          let ch = send ch (MustNewConstMetric (cpuUser c) CounterValue (User cpu_times)
                              [name, pidStr]);
              ch = send ch (MustNewConstMetric (cpuSystem c) CounterValue (System cpu_times)
                              [name, pidStr]);
              ch = (case Process_MemoryInfo os p of
                      Inr mem \<Rightarrow>
                        let ch = send ch (MustNewConstMetric (memoryRSS c) GaugeValue
                                            (float64_of_uint64 (RSS mem)) [name, pidStr])
                        in send ch (MustNewConstMetric (memoryVMS c) GaugeValue
                                      (float64_of_uint64 (VMS mem)) [name, pidStr])
                    | Inl err \<Rightarrow> ch);
              ch = (case Process_NumThreads os p of
                      Inr n \<Rightarrow> send ch (MustNewConstMetric (numThreads c) GaugeValue
                                          (float64_of_int32 n) [name, pidStr])
                    | Inl err \<Rightarrow> ch);
              ch = (case Process_NumFDs os p of
                      Inr fds \<Rightarrow> send ch (MustNewConstMetric (openFDs c) GaugeValue
                                            (float64_of_int32 fds) [name, pidStr])
                    | Inl err \<Rightarrow> ch);
              ch = (case Process_CreateTime os p of
                      Inr createTime \<Rightarrow>
                        send ch (MustNewConstMetric (startTime c) GaugeValue
                                   (float64_div (float64_of_int64 createTime) (Fin 1000))
                                   [name, pidStr])
                    | Inl err \<Rightarrow> ch)
          in send ch (MustNewConstMetric (up c) GaugeValue (Fin 1) [name, pidStr]))"

fun collect_range ::
  "ProcessCollector \<Rightarrow> ProcessSource \<Rightarrow> CachedProcess list \<Rightarrow> Scrape \<Rightarrow> Scrape" where
  "collect_range c os [] ch = ch"
| "collect_range c os (target # rest) ch =
     (let ch = collect_target c os target ch
      in if panicked ch then ch else collect_range c os rest ch)"

text \<open>
  \<open>Collect\<close>. Ranging over a Go map visits each key once, in an order the language
  leaves open: \<open>order\<close> is the order of this call, a list of the keys of \<open>cachedProcs\<close>
  without repetition. The entries are copied to \<open>targets\<close> first and queried afterwards.
  The result is the collector after the call (the receiver is a pointer) and what the
  call has done: the metrics sent on the channel, and whether a panic ended it.
\<close>

definition Collect ::
  "ProcessCollector \<Rightarrow> int32 list \<Rightarrow> ProcessSource \<Rightarrow> ProcessCollector \<times> Scrape" where
  "Collect c order os =
     (let targets = List.map_filter (cachedProcs c) order
      in (c, collect_range c os targets new_scrape))"

text \<open>
  \<open>StartCacheUpdater\<close> refreshes the cache once, from what the process source answers at
  startup, and then calls \<open>time.NewTicker(interval)\<close>, which panics when the interval is
  not positive: \<open>None\<close> is that panic. The goroutine it starts makes the later refreshes.
  A \<open>time.Duration\<close> is a number of nanoseconds.
\<close>

definition StartCacheUpdater ::
  "ProcessCollector \<Rightarrow> ProcessSource \<Rightarrow> int \<Rightarrow> ProcessCollector option" where
  "StartCacheUpdater c os interval =
     (let c = fst (refreshProcessCache c os)
      in if interval \<le> 0 then None else Some c)"

text \<open>
  How far \<open>main\<close> gets: \<open>Fatal\<close> is \<open>log.Fatal\<close> (the message is logged and the process
  ends with \<open>os.Exit(1)\<close>) before \<open>http.ListenAndServe\<close> is called; \<open>Panic\<close> is a panic
  that ends the process before that call; \<open>ListenAndServe\<close> is the call of
  \<open>http.ListenAndServe\<close> on the address, with the collector registered behind
  \<open>/metrics\<close>. The lines \<open>main\<close> prints with \<open>log.Printf\<close> on the way, and what follows
  the return of \<open>http.ListenAndServe\<close>, are not part of the outcome.
\<close>

datatype 'c startup = Fatal string | Panic | ListenAndServe string 'c

record Flags =
  addr :: string
  procNames :: string
  refreshInterval :: int

text \<open>\<open>main\<close> of the cached exporter, from the parsed flags.\<close>

definition main :: "Flags \<Rightarrow> ProcessSource \<Rightarrow> ProcessCollector startup" where
  "main flags os =
     (if procNames flags = []
      then Fatal ''Please provide -names (e.g., -names=nginx,mysql)''
      else
        let targetList = strings_Split (procNames flags) CHR '','';
            collector = NewProcessCollector targetList
        in case StartCacheUpdater collector os (refreshInterval flags) of
             None \<Rightarrow> Panic
           | Some collector \<Rightarrow> ListenAndServe (addr flags) collector)"

section \<open>The node-process exporter\<close>

record ProcessCollector_node =
  CPU :: Desc
  Memory :: Desc
  OpenFiles :: Desc
  ReadBytesTotal :: Desc
  WriteBytesTotal :: Desc
  includeNames :: "string set"

definition namespace :: string where
  "namespace = ''node''"

definition subsystem :: string where
  "subsystem = ''process''"

definition processLabels :: "string list" where
  "processLabels = [''name'', ''pid'', ''cmd'', ''user'']"

text \<open>\<open>prometheus.BuildFQName\<close> joins its non-empty parts with \<open>_\<close>.\<close>

definition BuildFQName :: "string \<Rightarrow> string \<Rightarrow> string \<Rightarrow> string" where
  "BuildFQName ns sub name =
     (if name = [] then []
      else if ns \<noteq> [] \<and> sub \<noteq> [] then ns @ ''_'' @ sub @ ''_'' @ name
      else if ns \<noteq> [] then ns @ ''_'' @ name
      else if sub \<noteq> [] then sub @ ''_'' @ name
      else name)"

definition NewProcessCollector_node :: "string set \<Rightarrow> ProcessCollector_node" where
  "NewProcessCollector_node incl =
     \<lparr>CPU = NewDesc (BuildFQName namespace subsystem ''cpu_usage_percent'')
             ''Process CPU usage percentage.'' processLabels,
      Memory = NewDesc (BuildFQName namespace subsystem ''memory_usage_percent'')
             ''Process memory usage percentage.'' processLabels,
      OpenFiles = NewDesc (BuildFQName namespace subsystem ''open_files_count'')
             ''Number of open files by the process.'' processLabels,
      ReadBytesTotal = NewDesc (BuildFQName namespace subsystem ''read_bytes_total'')
             ''Total number of bytes read by the process.'' processLabels,
      WriteBytesTotal = NewDesc (BuildFQName namespace subsystem ''write_bytes_total'')
             ''Total number of bytes written by the process.'' processLabels,
      includeNames = incl\<rparr>"

definition normalizeName :: "GoUnicode \<Rightarrow> string \<Rightarrow> string" where
  "normalizeName U n =
     (let s = strings_ToLower U n
      in if strings_HasSuffix s ''.exe'' then strings_TrimSuffix s ''.exe'' else s)"

definition getProcMemoryPercent :: "ProcessSource \<Rightarrow> Process \<Rightarrow> error + float64" where
  "getProcMemoryPercent os proc =
     (case Process_MemoryInfo os proc of
        Inl err \<Rightarrow> Inl err
      | Inr procMem \<Rightarrow>
          (case mem_VirtualMemory os of
             Inl err \<Rightarrow> Inl err
           | Inr nodeMem \<Rightarrow>
               Inr (float64_mul
                      (float64_div (float64_of_uint64 (RSS procMem))
                                   (float64_of_uint64 (Total nodeMem)))
                      (Fin 100))))"

text \<open>The text \<open>PID %d (%s), err: %v\<close> that ends the log lines of the four statistics.\<close>

definition pid_name_err :: "Process \<Rightarrow> string \<Rightarrow> error \<Rightarrow> string" where
  "pid_name_err proc name err =
     ''PID '' @ strconv_Itoa (sint (Pid proc)) @ '' ('' @ name @ ''), err: '' @ error_msg err"

text \<open>
  The four statistics of the loop body of \<open>Collect\<close>, in the order of the source, each an
  \<open>if ...; err == nil { ... } else { log.Printf(...) }\<close> of its own.
\<close>

definition collect_cpu ::
  "ProcessCollector_node \<Rightarrow> ProcessSource \<Rightarrow> Process \<Rightarrow> string \<Rightarrow> string list \<Rightarrow> Scrape
   \<Rightarrow> Scrape" where
  "collect_cpu pc os proc name labelValues st =
     (case Process_CPUPercent os proc of
        Inr cpuPercent \<Rightarrow>
          if float64_gt_zero cpuPercent
          then send st (MustNewConstMetric (CPU pc) GaugeValue cpuPercent labelValues)
          else st
      | Inl err \<Rightarrow>
          log_Printf st (''Failed to get CPU usage for '' @ pid_name_err proc name err))"

definition collect_memory ::
  "ProcessCollector_node \<Rightarrow> ProcessSource \<Rightarrow> Process \<Rightarrow> string \<Rightarrow> string list \<Rightarrow> Scrape
   \<Rightarrow> Scrape" where
  "collect_memory pc os proc name labelValues st =
     (case getProcMemoryPercent os proc of
        Inr memPercent \<Rightarrow>
          if float64_gt_zero memPercent
          then send st (MustNewConstMetric (Memory pc) GaugeValue memPercent labelValues)
          else st
      | Inl err \<Rightarrow>
          log_Printf st (''Failed to get memory usage for '' @ pid_name_err proc name err))"

definition collect_open_files ::
  "ProcessCollector_node \<Rightarrow> ProcessSource \<Rightarrow> Process \<Rightarrow> string \<Rightarrow> string list \<Rightarrow> Scrape
   \<Rightarrow> Scrape" where
  "collect_open_files pc os proc name labelValues st =
     (case Process_OpenFiles os proc of
        Inr openFiles \<Rightarrow>
          (let count = int (length openFiles)
           in if 0 < count
              then send st
                     (MustNewConstMetric (OpenFiles pc) GaugeValue (float64_of_int count)
                        labelValues)
              else st)
      | Inl err \<Rightarrow>
          log_Printf st (''Failed to get open files for '' @ pid_name_err proc name err))"

definition collect_io ::
  "ProcessCollector_node \<Rightarrow> ProcessSource \<Rightarrow> Process \<Rightarrow> string \<Rightarrow> string list \<Rightarrow> Scrape
   \<Rightarrow> Scrape" where
  "collect_io pc os proc name labelValues st =
     (case Process_IOCounters os proc of
        Inr ioCounters \<Rightarrow>
          let st = send st
                     (MustNewConstMetric (ReadBytesTotal pc) CounterValue
                        (float64_of_uint64 (ReadBytes ioCounters)) labelValues)
          in send st
               (MustNewConstMetric (WriteBytesTotal pc) CounterValue
                  (float64_of_uint64 (WriteBytes ioCounters)) labelValues)
      | Inl err \<Rightarrow>
          log_Printf st (''Failed to get IO counters for '' @ pid_name_err proc name err))"

text \<open>
  The filter of the loop body, as the condition under which it reaches its \<open>continue\<close>:
  \<open>includeNames\<close> is not empty (\<open>len(pc.includeNames) > 0\<close>) and the normalised name is
  not one of its keys.
\<close>

definition skipped_by_filter :: "GoUnicode \<Rightarrow> ProcessCollector_node \<Rightarrow> string \<Rightarrow> bool" where
  "skipped_by_filter U pc name =
     (if includeNames pc \<noteq> {}
      then (let nn = normalizeName U name in nn \<notin> includeNames pc)
      else False)"

text \<open>
  The loop body of \<open>Collect\<close> for one enumerated process: the name (a failure is logged
  and the process passed over), the filter (applied only when \<open>includeNames\<close> is not
  empty), the two label queries with their defaults, the four statistics.
\<close>

definition collect_process ::
  "GoUnicode \<Rightarrow> ProcessCollector_node \<Rightarrow> ProcessSource \<Rightarrow> Process \<Rightarrow> Scrape \<Rightarrow> Scrape" where
  "collect_process U pc os proc st =
     (let pid = Pid proc in
      case Process_Name os proc of
        Inl err \<Rightarrow>
          log_Printf st
            (''Failed to get name for PID '' @ strconv_Itoa (sint pid) @ '', err: ''
             @ error_msg err)
      | Inr name \<Rightarrow>
          if skipped_by_filter U pc name then st
          else
            let (cmdline, st) =
                  (case Process_Cmdline os proc of
                     Inl err \<Rightarrow>
                       ([], log_Printf st (''Failed to get cmdline for ''
                                            @ pid_name_err proc name err))
                   | Inr s \<Rightarrow> (s, st));
                (user, st) =
                  (case Process_Username os proc of
                     Inl err \<Rightarrow>
                       (''unknown'', log_Printf st (''Failed to get username for ''
                                                   @ pid_name_err proc name err))
                   | Inr s \<Rightarrow> (s, st));
                labelValues = [name, strconv_Itoa (sint pid), cmdline, user];
                st = collect_cpu pc os proc name labelValues st;
                st = collect_memory pc os proc name labelValues st;
                st = collect_open_files pc os proc name labelValues st
            in collect_io pc os proc name labelValues st)"

fun collect_processes ::
  "GoUnicode \<Rightarrow> ProcessCollector_node \<Rightarrow> ProcessSource \<Rightarrow> Process list \<Rightarrow> Scrape \<Rightarrow> Scrape" where
  "collect_processes U pc os [] st = st"
| "collect_processes U pc os (proc # rest) st =
     (let st = collect_process U pc os proc st
      in if panicked st then st else collect_processes U pc os rest st)"

definition Collect_node :: "GoUnicode \<Rightarrow> ProcessCollector_node \<Rightarrow> ProcessSource \<Rightarrow> Scrape" where
  "Collect_node U pc os =
     (case process_Processes os of
        Inl err \<Rightarrow> log_Printf new_scrape (''Failed to get processes: '' @ error_msg err)
      | Inr processes \<Rightarrow> collect_processes U pc os processes new_scrape)"

text \<open>
  \<open>main\<close> of node-process: the include set is filled from the parts of \<open>-names\<close>, blank
  parts passed over; an empty \<open>-names\<close> leaves it empty. There is no \<open>log.Fatal\<close> and no
  panic before \<open>http.ListenAndServe\<close>.
\<close>

record Flags_node =
  namesFlag :: string
  addrFlag :: string

fun include_range :: "GoUnicode \<Rightarrow> string list \<Rightarrow> string set \<Rightarrow> string set" where
  "include_range U [] incl = incl"
| "include_range U (p # parts) incl =
     (let t = strings_TrimSpace U p
      in if t = [] then include_range U parts incl
         else include_range U parts (insert (normalizeName U t) incl))"

definition main_node :: "GoUnicode \<Rightarrow> Flags_node \<Rightarrow> ProcessCollector_node startup" where
  "main_node U flags =
     (let incl = (if namesFlag flags \<noteq> []
                  then include_range U (strings_Split (namesFlag flags) CHR '','') {}
                  else {});
          procCollector = NewProcessCollector_node incl
      in ListenAndServe (addrFlag flags) procCollector)"

section \<open>A refresh and a scrape as two goroutines\<close>

text \<open>
  \<open>StartCacheUpdater\<close> runs \<open>refreshProcessCache\<close> on its own goroutine while the HTTP
  handler runs \<open>Collect\<close> on another, both on the same collector. The state of the two
  together is a \<open>world\<close>: the map objects by address, the field \<open>c.cachedProcs\<close> (the
  address of the current map), the \<open>rwMutex\<close> (whether it is held for writing, and by how
  many readers), and for each goroutine the statement it has reached, with its local
  variables. Each rule of \<open>step\<close> is one statement of the source, run by one goroutine;
  the goroutines interleave between statements. (All accesses to the field are made
  under the mutex, so the program has no data race and the Go memory model makes its
  executions interleavings of this kind.)
\<close>

type_synonym cache = "int32 \<rightharpoonup> CachedProcess"

type_synonym addr = nat

text \<open>
  The refresher: before \<open>process.Processes()\<close>; in the loop, with the address of
  \<open>newCache\<close> and the rest of \<open>allProcs\<close>; after \<open>rwMutex.Lock()\<close>; after the
  assignment \<open>c.cachedProcs = newCache\<close>; returned.
\<close>

datatype refresher =
    R_start
  | R_range addr "Process list"
  | R_locked addr
  | R_swapped
  | R_done

text \<open>
  The scrape: before \<open>rwMutex.RLock()\<close>; after it; in the \<open>range\<close> over the map whose
  address the loop read from the field, with the keys still to visit and \<open>targets\<close> so
  far; after \<open>rwMutex.RUnlock()\<close>, with \<open>targets\<close>; ended, with what the call has done
  (the metrics sent, and whether a panic ended it).
\<close>

datatype scraper =
    S_start
  | S_rlocked
  | S_range addr "int32 list" "CachedProcess list"
  | S_unlocked "CachedProcess list"
  | S_done Scrape

record world =
  maps :: "addr \<Rightarrow> cache option"
  cachedProcs_field :: addr
  writer :: bool
  readers :: nat
  refresher :: refresher
  scraper :: scraper

text \<open>
  \<open>step c os_r os_s\<close>: \<open>c\<close> gives the target names and descriptors, \<open>os_r\<close> is the
  process source the refresh sees and \<open>os_s\<close> the one the scrape sees. \<open>make\<close> returns
  an address not in use. \<open>Lock\<close> waits until no reader and no writer holds the mutex,
  \<open>RLock\<close> until no writer holds it. The \<open>range\<close> visits the keys of the map in an
  order chosen when it starts, and reads each entry from the map object as it is at
  that moment (an entry that is gone is passed over). The second loop of \<open>Collect\<close>
  works on \<open>targets\<close> and the process source only, and is one step.
\<close>

inductive step :: "ProcessCollector \<Rightarrow> ProcessSource \<Rightarrow> ProcessSource \<Rightarrow> world \<Rightarrow> world \<Rightarrow> bool"
  for c :: ProcessCollector and os_r :: ProcessSource and os_s :: ProcessSource where
  refresh_fails:
    "refresher w = R_start \<Longrightarrow> process_Processes os_r = Inl err \<Longrightarrow>
     step c os_r os_s w (w\<lparr>refresher := R_done\<rparr>)"
| refresh_make:
    "refresher w = R_start \<Longrightarrow> process_Processes os_r = Inr allProcs \<Longrightarrow>
     maps w a = None \<Longrightarrow>
     step c os_r os_s w (w\<lparr>maps := (maps w)(a \<mapsto> Map.empty), refresher := R_range a allProcs\<rparr>)"
| refresh_next:
    "refresher w = R_range a (p # ps) \<Longrightarrow> maps w a = Some newCache \<Longrightarrow>
     step c os_r os_s w
       (w\<lparr>maps := (maps w)(a \<mapsto> refresh_range c os_r [p] newCache),
          refresher := R_range a ps\<rparr>)"
| refresh_lock:
    "refresher w = R_range a [] \<Longrightarrow> \<not> writer w \<Longrightarrow> readers w = 0 \<Longrightarrow>
     step c os_r os_s w (w\<lparr>writer := True, refresher := R_locked a\<rparr>)"
| refresh_swap:
    "refresher w = R_locked a \<Longrightarrow>
     step c os_r os_s w (w\<lparr>cachedProcs_field := a, refresher := R_swapped\<rparr>)"
| refresh_unlock:
    "refresher w = R_swapped \<Longrightarrow>
     step c os_r os_s w (w\<lparr>writer := False, refresher := R_done\<rparr>)"
| scrape_rlock:
    "scraper w = S_start \<Longrightarrow> \<not> writer w \<Longrightarrow>
     step c os_r os_s w (w\<lparr>readers := readers w + 1, scraper := S_rlocked\<rparr>)"
| scrape_range:
    "scraper w = S_rlocked \<Longrightarrow> maps w (cachedProcs_field w) = Some m \<Longrightarrow>
     distinct order \<Longrightarrow> set order = dom m \<Longrightarrow>
     step c os_r os_s w (w\<lparr>scraper := S_range (cachedProcs_field w) order []\<rparr>)"
| scrape_next:
    "scraper w = S_range a (k # ks) targets \<Longrightarrow> maps w a = Some m \<Longrightarrow>
     m k = Some cached \<Longrightarrow>
     step c os_r os_s w (w\<lparr>scraper := S_range a ks (targets @ [cached])\<rparr>)"
| scrape_gone:
    "scraper w = S_range a (k # ks) targets \<Longrightarrow> maps w a = Some m \<Longrightarrow>
     m k = None \<Longrightarrow>
     step c os_r os_s w (w\<lparr>scraper := S_range a ks targets\<rparr>)"
| scrape_runlock:
    "scraper w = S_range a [] targets \<Longrightarrow>
     step c os_r os_s w (w\<lparr>readers := readers w - 1, scraper := S_unlocked targets\<rparr>)"
| scrape_collect:
    "scraper w = S_unlocked targets \<Longrightarrow>
     step c os_r os_s w (w\<lparr>scraper := S_done (collect_range c os_s targets new_scrape)\<rparr>)"

text \<open>
  The world in which both goroutines start: the cache of \<open>c\<close> is the one map object, at
  address 0, and the mutex is free.
\<close>

definition init :: "ProcessCollector \<Rightarrow> world" where
  "init c =
     \<lparr>maps = (\<lambda>a. if a = 0 then Some (cachedProcs c) else None),
      cachedProcs_field = 0, writer = False, readers = 0,
      refresher = R_start, scraper = S_start\<rparr>"

text \<open>
  The snapshot before the refresh and the one the refresh publishes, and what holds of
  every world the two goroutines can reach (lemma \<open>reachable_inv\<close>): the first map
  object is never written; the refresher writes only the map it made, and the field
  points to that map only once it is complete; the scrape ranges over one of the two
  snapshots.
\<close>

definition pre_snapshot :: "ProcessCollector \<Rightarrow> cache" where
  "pre_snapshot c = cachedProcs c"

definition post_snapshot :: "ProcessCollector \<Rightarrow> ProcessSource \<Rightarrow> cache" where
  "post_snapshot c os_r = cachedProcs (fst (refreshProcessCache c os_r))"

definition inv_refresher :: "ProcessCollector \<Rightarrow> ProcessSource \<Rightarrow> world \<Rightarrow> bool" where
  "inv_refresher c os_r w \<longleftrightarrow>
     maps w 0 = Some (pre_snapshot c) \<and>
     (case refresher w of
        R_start \<Rightarrow> cachedProcs_field w = 0
      | R_range a ps \<Rightarrow>
          cachedProcs_field w = 0 \<and> a \<noteq> 0 \<and>
          (\<exists>m. maps w a = Some m \<and> refresh_range c os_r ps m = post_snapshot c os_r)
      | R_locked a \<Rightarrow>
          cachedProcs_field w = 0 \<and> a \<noteq> 0 \<and> maps w a = Some (post_snapshot c os_r)
      | R_swapped \<Rightarrow> maps w (cachedProcs_field w) = Some (post_snapshot c os_r)
      | R_done \<Rightarrow> maps w (cachedProcs_field w) = Some (post_snapshot c os_r))"

definition snapshot_at :: "ProcessCollector \<Rightarrow> ProcessSource \<Rightarrow> world \<Rightarrow> addr \<Rightarrow> cache \<Rightarrow> bool" where
  "snapshot_at c os_r w a snap \<longleftrightarrow>
     maps w a = Some snap \<and>
     (a = 0 \<and> snap = pre_snapshot c \<or>
      a = cachedProcs_field w \<and> snap = post_snapshot c os_r \<and>
      (refresher w = R_swapped \<or> refresher w = R_done))"

definition inv_scraper ::
  "ProcessCollector \<Rightarrow> ProcessSource \<Rightarrow> ProcessSource \<Rightarrow> world \<Rightarrow> bool" where
  "inv_scraper c os_r os_s w \<longleftrightarrow>
     (case scraper w of
        S_start \<Rightarrow> True
      | S_rlocked \<Rightarrow> True
      | S_range a ks targets \<Rightarrow>
          (\<exists>snap visited. snapshot_at c os_r w a snap \<and>
             distinct (visited @ ks) \<and> set (visited @ ks) = dom snap \<and>
             targets = List.map_filter snap visited)
      | S_unlocked targets \<Rightarrow>
          (\<exists>snap order. (snap = pre_snapshot c \<or> snap = post_snapshot c os_r) \<and>
             distinct order \<and> set order = dom snap \<and>
             targets = List.map_filter snap order)
      | S_done out \<Rightarrow>
          (\<exists>snap order. (snap = pre_snapshot c \<or> snap = post_snapshot c os_r) \<and>
             distinct order \<and> set order = dom snap \<and>
             out = collect_range c os_s (List.map_filter snap order) new_scrape))"

section \<open>Notions used in the statements\<close>

text \<open>
  A collector is \<open>well_described\<close> when its descriptors are the ones
  \<open>NewProcessCollector\<close> creates; no function of the exporter assigns them afterwards.
  A cache is \<open>cache_keyed\<close> when every entry is stored under the PID of its own handle,
  as \<open>refreshProcessCache\<close> stores it, and has \<open>valid_names\<close> when the name of every
  entry is valid UTF-8.
\<close>

definition well_described :: "ProcessCollector \<Rightarrow> bool" where
  "well_described c \<longleftrightarrow> Describe c = Describe (NewProcessCollector [])"

definition cache_keyed :: "(int32 \<rightharpoonup> CachedProcess) \<Rightarrow> bool" where
  "cache_keyed m \<longleftrightarrow> (\<forall>pid e. m pid = Some e \<longrightarrow> Pid (Proc e) = pid)"

definition valid_names :: "(int32 \<rightharpoonup> CachedProcess) \<Rightarrow> bool" where
  "valid_names m \<longleftrightarrow> (\<forall>pid e. m pid = Some e \<longrightarrow> utf8_ValidString (Name e))"

text \<open>
  A metric of the cached exporter is \<open>for_pid pid\<close> when its second label, the \<open>pid\<close>
  label, is the decimal numeral of \<open>pid\<close>.
\<close>

definition for_pid :: "int32 \<Rightarrow> Metric \<Rightarrow> bool" where
  "for_pid pid m \<longleftrightarrow> tl (metric_labelValues m) = [strconv_Itoa (sint pid)]"

definition const_metric :: "Desc \<Rightarrow> ValueType \<Rightarrow> float64 \<Rightarrow> string list \<Rightarrow> Metric" where
  "const_metric d vt v lvs =
     \<lparr>metric_desc = d, metric_valueType = vt, metric_value = v, metric_labelValues = lvs\<rparr>"

text \<open>
  The metrics one cached entry contributes to a scrape, as a list: what
  \<open>collect_target\<close> appends to the channel when the name of the entry is valid UTF-8.
  When it is not and \<open>Times()\<close> succeeds, the first \<open>MustNewConstMetric\<close> of the entry
  panics (\<open>target_panics\<close>, lemma \<open>collect_target_result\<close>). Both are used in the
  proofs only.
\<close>

definition target_samples ::
  "ProcessCollector \<Rightarrow> ProcessSource \<Rightarrow> CachedProcess \<Rightarrow> Metric list" where
  "target_samples c os target =
     (let p = Proc target; lvs = [Name target, strconv_Itoa (sint (Pid p))] in
      case Process_Times os p of
        Inl err \<Rightarrow> []
      | Inr cpu_times \<Rightarrow>
          [const_metric (cpuUser c) CounterValue (User cpu_times) lvs,
           const_metric (cpuSystem c) CounterValue (System cpu_times) lvs]
          @ (case Process_MemoryInfo os p of
               Inr mem \<Rightarrow>
                 [const_metric (memoryRSS c) GaugeValue (float64_of_uint64 (RSS mem)) lvs,
                  const_metric (memoryVMS c) GaugeValue (float64_of_uint64 (VMS mem)) lvs]
             | Inl err \<Rightarrow> [])
          @ (case Process_NumThreads os p of
               Inr n \<Rightarrow> [const_metric (numThreads c) GaugeValue (float64_of_int32 n) lvs]
             | Inl err \<Rightarrow> [])
          @ (case Process_NumFDs os p of
               Inr fds \<Rightarrow> [const_metric (openFDs c) GaugeValue (float64_of_int32 fds) lvs]
             | Inl err \<Rightarrow> [])
          @ (case Process_CreateTime os p of
               Inr createTime \<Rightarrow>
                 [const_metric (startTime c) GaugeValue
                    (float64_div (float64_of_int64 createTime) (Fin 1000)) lvs]
             | Inl err \<Rightarrow> [])
          @ [const_metric (up c) GaugeValue (Fin 1) lvs])"

definition target_panics :: "ProcessSource \<Rightarrow> CachedProcess \<Rightarrow> bool" where
  "target_panics os target \<longleftrightarrow>
     \<not> isl (Process_Times os (Proc target)) \<and> \<not> utf8_ValidString (Name target)"

text \<open>
  For node-process: the label values of a process that passed the filter (with the
  defaults of the source for a failing \<open>Cmdline()\<close> and \<open>Username()\<close>), the test that a
  metric carries the \<open>pid\<close> label of a PID, and \<open>valid_labels\<close>: the label values of
  every enumerated process that can be named are valid UTF-8.
\<close>

definition process_labelValues :: "ProcessSource \<Rightarrow> Process \<Rightarrow> string \<Rightarrow> string list" where
  "process_labelValues os proc name =
     [name, strconv_Itoa (sint (Pid proc)),
      (case Process_Cmdline os proc of Inl err \<Rightarrow> [] | Inr s \<Rightarrow> s),
      (case Process_Username os proc of Inl err \<Rightarrow> ''unknown'' | Inr s \<Rightarrow> s)]"

definition for_pid_node :: "int32 \<Rightarrow> Metric \<Rightarrow> bool" where
  "for_pid_node pid m \<longleftrightarrow>
     take 1 (drop 1 (metric_labelValues m)) = [strconv_Itoa (sint pid)]"

definition valid_labels :: "ProcessSource \<Rightarrow> Process list \<Rightarrow> bool" where
  "valid_labels os ps \<longleftrightarrow>
     (\<forall>p \<in> set ps. \<forall>name. Process_Name os p = Inr name \<longrightarrow>
        list_all utf8_ValidString (process_labelValues os p name))"

text \<open>
  The metrics one enumerated process contributes to a scrape, statistic by statistic:
  what \<open>collect_process\<close> appends to the channel when the label values of the process are
  valid UTF-8. When they are not, the first \<open>MustNewConstMetric\<close> of the process, if it
  comes to one, panics (\<open>process_panics\<close>, lemma \<open>collect_process_result\<close>). Used in the
  proofs only.
\<close>

definition cpu_samples ::
  "ProcessCollector_node \<Rightarrow> ProcessSource \<Rightarrow> Process \<Rightarrow> string list \<Rightarrow> Metric list" where
  "cpu_samples pc os proc lvs =
     (case Process_CPUPercent os proc of
        Inr cpuPercent \<Rightarrow>
          if float64_gt_zero cpuPercent then [const_metric (CPU pc) GaugeValue cpuPercent lvs]
          else []
      | Inl err \<Rightarrow> [])"

definition memory_samples ::
  "ProcessCollector_node \<Rightarrow> ProcessSource \<Rightarrow> Process \<Rightarrow> string list \<Rightarrow> Metric list" where
  "memory_samples pc os proc lvs =
     (case getProcMemoryPercent os proc of
        Inr memPercent \<Rightarrow>
          if float64_gt_zero memPercent
          then [const_metric (Memory pc) GaugeValue memPercent lvs]
          else []
      | Inl err \<Rightarrow> [])"

definition open_files_samples ::
  "ProcessCollector_node \<Rightarrow> ProcessSource \<Rightarrow> Process \<Rightarrow> string list \<Rightarrow> Metric list" where
  "open_files_samples pc os proc lvs =
     (case Process_OpenFiles os proc of
        Inr openFiles \<Rightarrow>
          if openFiles \<noteq> []
          then [const_metric (OpenFiles pc) GaugeValue
                  (float64_of_int (int (length openFiles))) lvs]
          else []
      | Inl err \<Rightarrow> [])"

definition io_samples ::
  "ProcessCollector_node \<Rightarrow> ProcessSource \<Rightarrow> Process \<Rightarrow> string list \<Rightarrow> Metric list" where
  "io_samples pc os proc lvs =
     (case Process_IOCounters os proc of
        Inr ioCounters \<Rightarrow>
          [const_metric (ReadBytesTotal pc) CounterValue
             (float64_of_uint64 (ReadBytes ioCounters)) lvs,
           const_metric (WriteBytesTotal pc) CounterValue
             (float64_of_uint64 (WriteBytes ioCounters)) lvs]
      | Inl err \<Rightarrow> [])"

definition statistics_samples ::
  "ProcessCollector_node \<Rightarrow> ProcessSource \<Rightarrow> Process \<Rightarrow> string list \<Rightarrow> Metric list" where
  "statistics_samples pc os proc lvs =
     cpu_samples pc os proc lvs @ memory_samples pc os proc lvs
     @ open_files_samples pc os proc lvs @ io_samples pc os proc lvs"

definition process_samples ::
  "GoUnicode \<Rightarrow> ProcessCollector_node \<Rightarrow> ProcessSource \<Rightarrow> Process \<Rightarrow> Metric list" where
  "process_samples U pc os proc =
     (case Process_Name os proc of
        Inl err \<Rightarrow> []
      | Inr name \<Rightarrow>
          if skipped_by_filter U pc name then []
          else statistics_samples pc os proc (process_labelValues os proc name))"

definition process_panics ::
  "GoUnicode \<Rightarrow> ProcessCollector_node \<Rightarrow> ProcessSource \<Rightarrow> Process \<Rightarrow> bool" where
  "process_panics U pc os proc \<longleftrightarrow>
     (case Process_Name os proc of
        Inl err \<Rightarrow> False
      | Inr name \<Rightarrow>
          process_samples U pc os proc \<noteq> [] \<and>
          \<not> list_all utf8_ValidString (process_labelValues os proc name))"

section \<open>Concrete inputs\<close>

text \<open>A process source on which nothing can be queried: the enumeration itself fails.\<close>

definition no_such_process :: error where
  "no_such_process = Error ''no such process''"

definition os_down :: ProcessSource where
  "os_down =
     \<lparr>process_Processes = Inl (Error ''too many open files''),
      Process_Name = (\<lambda>p. Inl no_such_process),
      Process_Times = (\<lambda>p. Inl no_such_process),
      Process_MemoryInfo = (\<lambda>p. Inl no_such_process),
      Process_NumThreads = (\<lambda>p. Inl no_such_process),
      Process_NumFDs = (\<lambda>p. Inl no_such_process),
      Process_CreateTime = (\<lambda>p. Inl no_such_process),
      Process_Cmdline = (\<lambda>p. Inl no_such_process),
      Process_Username = (\<lambda>p. Inl no_such_process),
      Process_CPUPercent = (\<lambda>p. Inl no_such_process),
      Process_OpenFiles = (\<lambda>p. Inl no_such_process),
      Process_IOCounters = (\<lambda>p. Inl no_such_process),
      mem_VirtualMemory = Inl (Error ''unavailable'')\<rparr>"

text \<open>
  A table of answers by PID; a PID without a line has no such process. The next source
  is a host at the moment of a refresh: four processes, of which 103 cannot be named.
\<close>

definition pid_query :: "(int32 \<times> 'a) list \<Rightarrow> Process \<Rightarrow> error + 'a" where
  "pid_query table p =
     (case map_of table (Pid p) of None \<Rightarrow> Inl no_such_process | Some v \<Rightarrow> Inr v)"

definition os_boot :: ProcessSource where
  "os_boot =
     \<lparr>process_Processes = Inr [\<lparr>Pid = 101\<rparr>, \<lparr>Pid = 102\<rparr>, \<lparr>Pid = 103\<rparr>, \<lparr>Pid = 104\<rparr>],
      Process_Name = pid_query [(101, ''nginx''), (102, ''bash''), (104, ''sshd'')],
      Process_Times = pid_query [(101, \<lparr>User = Fin 1.5, System = Fin 0.5\<rparr>),
                                 (104, \<lparr>User = Fin 7, System = Fin 3\<rparr>)],
      Process_MemoryInfo = pid_query [(101, \<lparr>RSS = 209715200, VMS = 419430400\<rparr>),
                                      (104, \<lparr>RSS = 1048576, VMS = 2097152\<rparr>)],
      Process_NumThreads = pid_query [(101, 4), (104, 1)],
      Process_NumFDs = pid_query [(101, 12), (104, 6)],
      Process_CreateTime = pid_query [(101, 1700000000000), (104, 1700000001000)],
      Process_Cmdline = pid_query [(101, ''nginx: master process''),
                                   (104, ''sshd: /usr/sbin/sshd -D'')],
      Process_Username = pid_query [(101, ''root''), (104, ''root'')],
      Process_CPUPercent = pid_query [(101, Fin 2.5), (104, Fin 0)],
      Process_OpenFiles = pid_query [(101, [\<lparr>Path = ''/var/log/nginx/access.log'', Fd = 3\<rparr>]),
                                     (104, [])],
      Process_IOCounters = pid_query [(101, \<lparr>ReadBytes = 4096, WriteBytes = 0\<rparr>),
                                      (104, \<lparr>ReadBytes = 0, WriteBytes = 0\<rparr>)],
      mem_VirtualMemory = Inr \<lparr>Total = 2097152000\<rparr>\<rparr>"

text \<open>
  The cached exporter started with \<open>-names=nginx\<close> on that host: after the first
  refresh its cache holds the one entry for PID 101.
\<close>

definition entry_101 :: CachedProcess where
  "entry_101 = \<lparr>Proc = \<lparr>Pid = 101\<rparr>, Name = ''nginx''\<rparr>"

definition c_nginx :: ProcessCollector where
  "c_nginx = fst (refreshProcessCache (NewProcessCollector [''nginx'']) os_boot)"

text \<open>
  The same host at three later moments: \<open>Times()\<close> fails on PID 101 while its other
  queries still answer; \<open>MemoryInfo()\<close> alone fails on PID 101; process 101 has exited
  (it is no longer enumerated, and of the queries on its handle only \<open>CreateTime()\<close>
  still answers, from the value the handle has kept).
\<close>

definition os_no_times :: ProcessSource where
  "os_no_times = os_boot\<lparr>Process_Times := pid_query [(104, \<lparr>User = Fin 7, System = Fin 3\<rparr>)]\<rparr>"

definition os_no_memory :: ProcessSource where
  "os_no_memory =
     os_boot\<lparr>Process_MemoryInfo := pid_query [(104, \<lparr>RSS = 1048576, VMS = 2097152\<rparr>)]\<rparr>"

definition os_exited :: ProcessSource where
  "os_exited =
     os_boot\<lparr>process_Processes := Inr [\<lparr>Pid = 102\<rparr>, \<lparr>Pid = 104\<rparr>],
             Process_Name := pid_query [(102, ''bash''), (104, ''sshd'')],
             Process_Times := pid_query [(104, \<lparr>User = Fin 7, System = Fin 3\<rparr>)],
             Process_MemoryInfo := pid_query [(104, \<lparr>RSS = 1048576, VMS = 2097152\<rparr>)],
             Process_NumThreads := pid_query [(104, 1)],
             Process_NumFDs := pid_query [(104, 6)]\<rparr>"

text \<open>
  A host on which process 99 runs under a name, and with a command line, whose last
  byte is \<open>0xFF\<close>: not valid UTF-8. The cached exporter started with \<open>-names=nginx\<close>
  caches both processes. Later process 101 has exited while 99 still runs.
\<close>

definition name_ff :: string where
  "name_ff = ''nginx'' @ [CHR 0xFF]"

definition entry_99 :: CachedProcess where
  "entry_99 = \<lparr>Proc = \<lparr>Pid = 99\<rparr>, Name = name_ff\<rparr>"

definition os_ff :: ProcessSource where
  "os_ff =
     \<lparr>process_Processes = Inr [\<lparr>Pid = 99\<rparr>, \<lparr>Pid = 101\<rparr>],
      Process_Name = pid_query [(99, name_ff), (101, ''nginx'')],
      Process_Times = pid_query [(99, \<lparr>User = Fin 2, System = Fin 1\<rparr>),
                                 (101, \<lparr>User = Fin 1.5, System = Fin 0.5\<rparr>)],
      Process_MemoryInfo = pid_query [(99, \<lparr>RSS = 1048576, VMS = 2097152\<rparr>),
                                      (101, \<lparr>RSS = 209715200, VMS = 419430400\<rparr>)],
      Process_NumThreads = pid_query [(99, 1), (101, 4)],
      Process_NumFDs = pid_query [(99, 3), (101, 12)],
      Process_CreateTime = pid_query [(99, 1700000002000), (101, 1700000000000)],
      Process_Cmdline = pid_query [(99, name_ff), (101, ''nginx: master process'')],
      Process_Username = pid_query [(99, ''root''), (101, ''root'')],
      Process_CPUPercent = pid_query [(99, Fin 0), (101, Fin 2.5)],
      Process_OpenFiles = pid_query [(99, []),
                                     (101, [\<lparr>Path = ''/var/log/nginx/access.log'', Fd = 3\<rparr>])],
      Process_IOCounters = pid_query [(99, \<lparr>ReadBytes = 0, WriteBytes = 0\<rparr>),
                                      (101, \<lparr>ReadBytes = 4096, WriteBytes = 0\<rparr>)],
      mem_VirtualMemory = Inr \<lparr>Total = 2097152000\<rparr>\<rparr>"

definition c_ff :: ProcessCollector where
  "c_ff = fst (refreshProcessCache (NewProcessCollector [''nginx'']) os_ff)"

definition os_ff_exit :: ProcessSource where
  "os_ff_exit =
     os_ff\<lparr>process_Processes := Inr [\<lparr>Pid = 99\<rparr>],
           Process_Name := pid_query [(99, name_ff)],
           Process_Times := pid_query [(99, \<lparr>User = Fin 2, System = Fin 1\<rparr>)],
           Process_MemoryInfo := pid_query [(99, \<lparr>RSS = 1048576, VMS = 2097152\<rparr>)],
           Process_NumThreads := pid_query [(99, 1)],
           Process_NumFDs := pid_query [(99, 3)]\<rparr>"


text \<open>
  The inputs above are ASCII where \<open>strings.ToLower\<close> and \<open>strings.TrimSpace\<close> are
  applied to them, so that the Unicode path of the two functions is not taken; this
  stands for it.
\<close>

definition ascii_only :: GoUnicode where
  "ascii_only = \<lparr>unicode_ToLower = (\<lambda>s. s), unicode_TrimSpace = (\<lambda>s. s)\<rparr>"

section \<open>Rounding to \<open>float64\<close>\<close>

text \<open>
  \<open>exponent\<close> finds the binade of its argument; \<open>round64\<close> keeps a value of the format
  as it is (\<open>round64_exact\<close>), and in the normal range its result is within half a unit
  in the last place of its argument (\<open>round64_error\<close>), a relative error of at most
  \<open>2 ^ -53\<close>.
\<close>

lemma exponent_up_spec:
  "1 \<le> a \<Longrightarrow> a < 2 ^ Suc n \<Longrightarrow>
   2 powi (exponent_up n a) \<le> a \<and> a < 2 powi (exponent_up n a + 1)"
proof (induction n arbitrary: a)
  case 0
  then show ?case by simp
next
  case (Suc n)
  show ?case
  proof (cases "2 \<le> a")
    case True
    have "1 \<le> a / 2" "a / 2 < 2 ^ Suc n" using True Suc.prems by simp_all
    from Suc.IH [OF this]
    have "2 powi (exponent_up n (a / 2)) \<le> a / 2" "a / 2 < 2 powi (exponent_up n (a / 2) + 1)"
      by simp_all
    then show ?thesis using True by (simp add: power_int_add field_simps)
  next
    case False
    then show ?thesis using Suc.prems by simp
  qed
qed

lemma exponent_down_ge_1: "1 \<le> a \<Longrightarrow> exponent_down n a = 0"
  by (cases n) simp_all

lemma exponent_down_spec:
  "0 < a \<Longrightarrow> a < 1 \<Longrightarrow> 1 \<le> a * 2 ^ n \<Longrightarrow>
   2 powi (exponent_down n a) \<le> a \<and> a < 2 powi (exponent_down n a + 1)"
proof (induction n arbitrary: a)
  case 0
  then show ?case by simp
next
  case (Suc n)
  show ?case
  proof (cases "a * 2 < 1")
    case True
    have "0 < a * 2" "1 \<le> a * 2 * 2 ^ n" using Suc.prems by (simp_all add: mult.assoc)
    from Suc.IH [OF this(1) True this(2)]
    have "2 powi (exponent_down n (a * 2)) \<le> a * 2" "a * 2 < 2 powi (exponent_down n (a * 2) + 1)"
      by simp_all
    then show ?thesis using Suc.prems(2) by (simp add: power_int_add power_int_diff field_simps)
  next
    case False
    then have "exponent_down n (a * 2) = 0" by (simp add: exponent_down_ge_1)
    then show ?thesis using Suc.prems False by (simp add: power_int_minus field_simps)
  qed
qed

lemma powi_less_cancel:
  assumes "(2::real) powi k < 2 powi j"
  shows "k < j"
proof (rule ccontr)
  assume "\<not> k < j"
  then have "(2::real) powi j \<le> 2 powi k" by (intro power_int_increasing) simp_all
  with assms show False by simp
qed


lemma exponent_spec:
  assumes "2 powi (- 1100) \<le> a" "a < 2 powi 1101"
  shows "2 powi (exponent a) \<le> a \<and> a < 2 powi (exponent a + 1)"
proof (cases "1 \<le> a")
  case True
  have "a < 2 ^ Suc 1100" using assms(2) by simp
  from exponent_up_spec [OF True this] show ?thesis using True by (simp add: exponent_def)
next
  case False
  have pos: "0 < a" using assms(1) by (rule less_le_trans [rotated]) simp
  have "1 \<le> a * 2 ^ 1100" using assms(1) by (simp add: power_int_minus field_simps)
  from exponent_down_spec [OF pos _ this] show ?thesis using False by (simp add: exponent_def)
qed


lemma round_half_even_of_int [simp]: "round_half_even (of_int n) = n"
  by (simp add: round_half_even_def)



lemma powi2_split: "j = i + n \<Longrightarrow> (2::real) powi j = 2 powi i * 2 powi n"
  by (simp add: power_int_add)



lemma round64_exact:
  assumes x: "x = of_int m * 2 powi e" and m: "\<bar>m\<bar> < 2 ^ 53" and e: "- 1074 \<le> e"
    and fin: "\<bar>x\<bar> < 2 powi 1024"
  shows "round64 x = Fin x"
proof (cases "x = 0")
  case True
  then show ?thesis by (simp add: round64_def)
next
  case False
  define a where "a = \<bar>x\<bar>"
  have a: "a = of_int \<bar>m\<bar> * 2 powi e" by (simp add: a_def x abs_mult)
  have m0: "m \<noteq> 0" using False x by auto
  then have "1 \<le> real_of_int \<bar>m\<bar>" by (simp add: abs_if) 
  then have "1 * 2 powi e \<le> a" unfolding a by (intro mult_right_mono) simp_all
  moreover have "(2::real) powi (- 1074) \<le> 2 powi e" using e by (intro power_int_increasing) simp_all
  moreover have "(2::real) powi (- 1100) \<le> 2 powi (- 1074)" by (intro power_int_increasing) simp_all
  ultimately have lo: "2 powi (- 1100) \<le> a" by linarith
  have "(2::real) powi 1024 \<le> 2 powi 1101" by (intro power_int_increasing) simp_all
  then have hi: "a < 2 powi 1101" using fin by (simp add: a_def)
  define k where "k = exponent a"
  from exponent_spec [OF lo hi] have k: "2 powi k \<le> a" "a < 2 powi (k + 1)"
    by (simp_all add: k_def)
  have "real_of_int \<bar>m\<bar> < 2 ^ 53" using m by (metis of_int_less_iff of_int_numeral of_int_power)
  then have "a < 2 ^ 53 * 2 powi e" unfolding a by (intro mult_strict_right_mono) simp_all
  also have "\<dots> = 2 powi (53 + e)"
  proof -
    have "(2::real) powi (53 + e) = 2 powi 53 * 2 powi e"
      by (rule powi2_split) simp
    then show ?thesis by simp
  qed
  finally have "(2::real) powi k < 2 powi (53 + e)" using k(1) by linarith
  then have "k < 53 + e" by (rule powi_less_cancel)
  define e' where "e' = max (k - 52) (- 1074)"
  have e': "e' \<le> e" using \<open>k < 53 + e\<close> e by (simp add: e'_def)
  define n where "n = \<bar>m\<bar> * 2 ^ nat (e - e')"
  have "(2::real) powi e = 2 powi (e - e') * 2 powi e'"
    by (rule powi2_split) simp
  also have "(2::real) powi (e - e') = 2 ^ nat (e - e')"
    using e' by (simp add: power_int_def)
  finally have pe: "(2::real) powi e = 2 ^ nat (e - e') * 2 powi e'" .
  have q: "a / 2 powi e' = of_int n"
    unfolding a pe n_def by simp
  have y: "of_int n * 2 powi e' = a"
    unfolding a pe n_def by simp
  have no: "\<not> (2::real) powi 1024 \<le> a" using fin unfolding a_def by linarith
  have "round64 x = Fin (if 0 < x then a else - a)"
    using False no unfolding round64_def Let_def
    by (simp add: a_def [symmetric] k_def [symmetric] e'_def [symmetric] q y del: power_int_numeral)
  then show ?thesis by (simp add: a_def)
qed

lemma round64_of_int:
  assumes "\<bar>n\<bar> < 2 ^ 53"
  shows "round64 (of_int n) = Fin (of_int n)"
proof (rule round64_exact [where m = n and e = 0])
  show "real_of_int n = of_int n * 2 powi 0" by simp
  show "\<bar>n\<bar> < 2 ^ 53" by fact
  show "- 1074 \<le> (0::int)" by simp
  have "\<bar>real_of_int n\<bar> < 2 ^ 53" using assms by (metis of_int_abs of_int_less_iff of_int_numeral of_int_power)
  also have "(2::real) ^ 53 \<le> 2 powi 1024" by simp
  finally show "\<bar>real_of_int n\<bar> < 2 powi 1024" .
qed




section \<open>Strings and decimal numerals\<close>

lemma strings_HasPrefix_iff: "strings_HasPrefix s t \<longleftrightarrow> (\<exists>v. s = t @ v)"
  by (induction s t rule: strings_HasPrefix.induct) auto

text \<open>\<open>strings_Contains s t\<close> holds exactly when \<open>t\<close> occurs in \<open>s\<close> as a block of bytes.\<close>

lemma strings_Contains_iff: "strings_Contains s t \<longleftrightarrow> (\<exists>u v. s = u @ t @ v)"
proof (induction s)
  case Nil
  then show ?case by simp
next
  case (Cons x xs)
  show ?case
  proof
    assume "strings_Contains (x # xs) t"
    then consider "strings_HasPrefix (x # xs) t" | "strings_Contains xs t" by auto
    then show "\<exists>u v. x # xs = u @ t @ v"
    proof cases
      case 1
      then obtain v where "x # xs = t @ v" by (auto simp: strings_HasPrefix_iff)
      then have "x # xs = [] @ t @ v" by simp
      then show ?thesis by blast
    next
      case 2
      with Cons.IH obtain u v where "xs = u @ t @ v" by blast
      then have "x # xs = (x # u) @ t @ v" by simp
      then show ?thesis by blast
    qed
  next
    assume "\<exists>u v. x # xs = u @ t @ v"
    then obtain u v where uv: "x # xs = u @ t @ v" by blast
    show "strings_Contains (x # xs) t"
    proof (cases u)
      case Nil
      with uv have "strings_HasPrefix (x # xs) t" by (auto simp: strings_HasPrefix_iff)
      then show ?thesis by simp
    next
      case (Cons y ys)
      with uv have "xs = ys @ t @ v" by simp
      with Cons.IH have "strings_Contains xs t" by blast
      then show ?thesis by simp
    qed
  qed
qed


text \<open>A string of bytes below \<open>0x80\<close> is valid UTF-8; so is every decimal numeral.\<close>

lemma valid_utf8_ascii: "list_all (\<lambda>b. b < 128) bs \<Longrightarrow> valid_utf8 bs"
  by (induction bs) simp_all

lemma utf8_ValidString_ascii: "is_ascii s \<Longrightarrow> utf8_ValidString s"
  by (simp add: utf8_ValidString_def is_ascii_def valid_utf8_ascii list_all_iff)

lemma digit_char_ascii: "d < 10 \<Longrightarrow> (of_char (digit_char d) :: nat) < 128"
  by (simp add: digit_char_def)

lemma format_nat_ascii: "is_ascii (format_nat n)"
proof (induction n rule: format_nat.induct)
  case (1 n)
  show ?case
  proof (cases "n < 10")
    case True
    then show ?thesis
      by (subst format_nat.simps) (simp add: is_ascii_def digit_char_ascii)
  next
    case False
    with 1 have "is_ascii (format_nat (n div 10))" by simp
    moreover have "(of_char (digit_char (n mod 10)) :: nat) < 128"
      by (rule digit_char_ascii) simp
    ultimately show ?thesis
      using False by (subst format_nat.simps) (simp add: is_ascii_def)
  qed
qed

lemma strconv_Itoa_ascii: "is_ascii (strconv_Itoa i)"
  using format_nat_ascii [of "nat (- i)"] format_nat_ascii [of "nat i"]
  by (simp add: strconv_Itoa_def is_ascii_def)

lemma strconv_Itoa_valid [simp]: "utf8_ValidString (strconv_Itoa i)"
  by (rule utf8_ValidString_ascii) (rule strconv_Itoa_ascii)

lemma name_ff_invalid: "\<not> utf8_ValidString name_ff"
  by (simp add: name_ff_def utf8_ValidString_def)

section \<open>The refresh cycle\<close>

text \<open>
  Claim C3. When the enumeration of the processes fails, \<open>refreshProcessCache\<close>
  returns the collector it was given, cache included, and its only effect is one logged
  line carrying the error. The model of the function has no fatal outcome at all.
\<close>

theorem refresh_enumeration_failure:
  "process_Processes os = Inl err \<Longrightarrow>
   refreshProcessCache c os = (c, [''Error scanning processes: '' @ error_msg err])"
  by (simp add: refreshProcessCache_def)

theorem refresh_enumeration_failure_witness:
  "process_Processes os_down = Inl (Error ''too many open files'') \<and>
   refreshProcessCache (NewProcessCollector [''nginx'']) os_down
     = (NewProcessCollector [''nginx''],
        [''Error scanning processes: too many open files''])"
  using refresh_enumeration_failure
          [of os_down "Error ''too many open files''" "NewProcessCollector [''nginx'']"]
  by (simp add: os_down_def)

lemma isTarget_range_iff:
  "isTarget_range ts n \<longleftrightarrow> (\<exists>t \<in> set ts. strings_Contains n t)"
  by (induction ts) auto

lemma isTarget_iff:
  "isTarget c n \<longleftrightarrow> (\<exists>t \<in> set (targetNames c). \<exists>u v. n = u @ t @ v)"
  by (simp add: isTarget_def isTarget_range_iff strings_Contains_iff)

lemma dom_refresh_range:
  "dom (refresh_range c os ps m) =
     dom m \<union> {Pid p | p. p \<in> set ps \<and> (\<exists>n. Process_Name os p = Inr n \<and> isTarget c n)}"
  by (induction ps arbitrary: m) (auto split: sum.splits)

text \<open>
  Claim C4. After a refresh cycle whose enumeration returned the list \<open>P\<close>, the keys of
  the cache are exactly the PIDs of the processes of \<open>P\<close> whose name could be resolved
  and contains one of the target names as a substring; a process whose name cannot be
  resolved is left out, and nothing is logged about it.
\<close>

theorem refresh_cache_exact:
  "process_Processes os = Inr P \<Longrightarrow>
   dom (cachedProcs (fst (refreshProcessCache c os))) =
     {Pid p | p. p \<in> set P \<and>
        (\<exists>name. Process_Name os p = Inr name \<and>
           (\<exists>t \<in> set (targetNames c). \<exists>u v. name = u @ t @ v))} \<and>
   snd (refreshProcessCache c os) = []"
  by (simp add: refreshProcessCache_def dom_refresh_range isTarget_iff)

theorem refresh_cache_exact_witness:
  "process_Processes os_boot = Inr [\<lparr>Pid = 101\<rparr>, \<lparr>Pid = 102\<rparr>, \<lparr>Pid = 103\<rparr>, \<lparr>Pid = 104\<rparr>] \<and>
   dom (cachedProcs (fst (refreshProcessCache (NewProcessCollector [''gin'', ''ssh'']) os_boot)))
     = {101, 104} \<and>
   {Pid p | p. p \<in> set [\<lparr>Pid = 101\<rparr>, \<lparr>Pid = 102\<rparr>, \<lparr>Pid = 103\<rparr>, \<lparr>Pid = 104\<rparr>] \<and>
        (\<exists>name. Process_Name os_boot p = Inr name \<and>
           (\<exists>t \<in> set (targetNames (NewProcessCollector [''gin'', ''ssh''])).
              \<exists>u v. name = u @ t @ v))} = {101, 104} \<and>
   snd (refreshProcessCache (NewProcessCollector [''gin'', ''ssh'']) os_boot) = []"
proof -
  have P: "process_Processes os_boot
             = Inr [\<lparr>Pid = 101\<rparr>, \<lparr>Pid = 102\<rparr>, \<lparr>Pid = 103\<rparr>, \<lparr>Pid = 104\<rparr>]"
    by (simp add: os_boot_def)
  have D: "dom (cachedProcs (fst (refreshProcessCache (NewProcessCollector [''gin'', ''ssh'']) os_boot)))
             = {101, 104}"
    by (auto simp add: refreshProcessCache_def os_boot_def pid_query_def
          NewProcessCollector_def isTarget_def)
  from refresh_cache_exact [OF P, of "NewProcessCollector [''gin'', ''ssh'']"] D P show ?thesis
    by simp
qed

section \<open>Startup\<close>

text \<open>
  Claim C2, as the code has it. The cached exporter ends with \<open>log.Fatal\<close> whenever
  \<open>-names\<close> is empty: the test comes first in \<open>main\<close>, before \<open>StartCacheUpdater\<close> and
  before \<open>http.ListenAndServe\<close>, whatever the other flags are. The node-process exporter
  has no such check: with an empty \<open>-names\<close> it serves, with an empty include set.
\<close>

theorem startup_without_names:
  "(procNames flags = [] \<longrightarrow>
      main flags os = Fatal ''Please provide -names (e.g., -names=nginx,mysql)'') \<and>
   (namesFlag flags' = [] \<longrightarrow>
      main_node U flags' = ListenAndServe (addrFlag flags') (NewProcessCollector_node {}))"
  by (simp add: main_def main_node_def Let_def)

theorem startup_without_names_witness:
  "procNames \<lparr>addr = '':9002'', procNames = [], refreshInterval = 30000000000\<rparr> = [] \<and>
   main \<lparr>addr = '':9002'', procNames = [], refreshInterval = 30000000000\<rparr> os_boot
     = Fatal ''Please provide -names (e.g., -names=nginx,mysql)'' \<and>
   procNames \<lparr>addr = '':9002'', procNames = [], refreshInterval = 0\<rparr> = [] \<and>
   main \<lparr>addr = '':9002'', procNames = [], refreshInterval = 0\<rparr> os_down
     = Fatal ''Please provide -names (e.g., -names=nginx,mysql)'' \<and>
   namesFlag \<lparr>namesFlag = [], addrFlag = '':9002''\<rparr> = [] \<and>
   main_node ascii_only \<lparr>namesFlag = [], addrFlag = '':9002''\<rparr>
     = ListenAndServe '':9002'' (NewProcessCollector_node {})"
  using startup_without_names
          [of "\<lparr>addr = '':9002'', procNames = [], refreshInterval = 30000000000\<rparr>" os_boot
              "\<lparr>namesFlag = [], addrFlag = '':9002''\<rparr>" ascii_only]
        startup_without_names
          [of "\<lparr>addr = '':9002'', procNames = [], refreshInterval = 0\<rparr>" os_down
              "\<lparr>namesFlag = [], addrFlag = '':9002''\<rparr>" ascii_only]
  by simp

text \<open>
  The claim as stated fails on node-process: started with an empty \<open>-names\<close>, its
  \<open>main\<close> reaches \<open>http.ListenAndServe\<close>.
\<close>

theorem node_startup_without_names_serves:
  "namesFlag \<lparr>namesFlag = [], addrFlag = '':9002''\<rparr> = [] \<and>
   main_node ascii_only \<lparr>namesFlag = [], addrFlag = '':9002''\<rparr>
     = ListenAndServe '':9002'' (NewProcessCollector_node {})"
  by (simp add: main_node_def)

section \<open>The memory percentage\<close>









lemma float64_of_uint64_small:
  assumes "unat w < 2 ^ 53"
  shows "float64_of_uint64 w = Fin (real (unat w))"
proof -
  have "int (unat w) < int (2 ^ 53)" using assms by (simp only: of_nat_less_iff)
  then have "\<bar>int (unat w)\<bar> < 2 ^ 53" by simp
  from round64_of_int [OF this] show ?thesis by (simp add: float64_of_uint64_def)
qed






section \<open>The name filter of node-process\<close>

lemma strings_HasSuffix_iff: "strings_HasSuffix s t \<longleftrightarrow> (\<exists>b. s = b @ t)"
proof
  assume "strings_HasSuffix s t"
  then have "s = take (length s - length t) s @ t"
    by (metis append_take_drop_id strings_HasSuffix_def)
  then show "\<exists>b. s = b @ t" by blast
next
  assume "\<exists>b. s = b @ t"
  then show "strings_HasSuffix s t" by (auto simp: strings_HasSuffix_def)
qed

lemma strings_TrimSuffix_append: "strings_TrimSuffix (b @ t) t = b"
  by (simp add: strings_TrimSuffix_def strings_HasSuffix_def)

lemma normalizeName_cases:
  "(strings_ToLower U n = b @ ''.exe'' \<longrightarrow> normalizeName U n = b) \<and>
   ((\<forall>b. strings_ToLower U n \<noteq> b @ ''.exe'') \<longrightarrow> normalizeName U n = strings_ToLower U n)"
  by (auto simp: normalizeName_def strings_HasSuffix_iff strings_TrimSuffix_append
      simp del: append.simps)

lemma include_range_eq:
  "include_range U parts incl =
     incl \<union> {normalizeName U t | t. t \<in> set (filter (\<lambda>t. t \<noteq> []) (map (strings_TrimSpace U) parts))}"
  by (induction parts arbitrary: incl) (auto simp: Let_def)

lemma trim_empty: "strings_TrimSpace U [] = []"
  by (simp add: strings_TrimSpace_def is_ascii_def)

text \<open>
  Claim C8, as the code has it. Let \<open>T\<close> be the parts of \<open>-names\<close> between commas,
  trimmed by \<open>strings.TrimSpace\<close>, the blank ones dropped. When \<open>T\<close> is not empty, a
  process passes the filter of \<open>Collect\<close> exactly when its normalised name equals the
  normalised form of a member of \<open>T\<close>; when \<open>T\<close> is empty, every process passes.
  Normalising is \<open>strings.ToLower\<close> followed by the removal of one trailing \<open>.exe\<close>.
  This holds whatever the two library functions return on text beyond ASCII (for every
  \<open>U\<close>); on ASCII text lower-casing maps the letters \<open>A\<close> to \<open>Z\<close> byte by byte. With
  \<open>-names=nginx\<close> the process name \<open>Nginx.exe\<close> passes.
\<close>

theorem normalized_equality_match:
  "(main_node U flags = ListenAndServe a pc \<and>
    T = filter (\<lambda>t. t \<noteq> []) (map (strings_TrimSpace U) (strings_Split (namesFlag flags) CHR '','')) \<longrightarrow>
      (\<not> skipped_by_filter U pc name) =
        (T = [] \<or> (\<exists>t \<in> set T. normalizeName U name = normalizeName U t))) \<and>
   (strings_ToLower U name = b @ ''.exe'' \<longrightarrow> normalizeName U name = b) \<and>
   ((\<forall>b. strings_ToLower U name \<noteq> b @ ''.exe'') \<longrightarrow> normalizeName U name = strings_ToLower U name) \<and>
   (is_ascii name \<longrightarrow> strings_ToLower U name = map lower_byte name) \<and>
   (main_node U \<lparr>namesFlag = ''nginx'', addrFlag = a\<rparr> = ListenAndServe a pc \<longrightarrow>
      \<not> skipped_by_filter U pc ''Nginx.exe'')"
proof -
  have L: "is_ascii name \<longrightarrow> strings_ToLower U name = map lower_byte name"
    by (simp add: strings_ToLower_def)
  have A: "(\<not> skipped_by_filter U pc name) =
        (T = [] \<or> (\<exists>t \<in> set T. normalizeName U name = normalizeName U t))"
    if m: "main_node U flags = ListenAndServe a pc"
    and T: "T = filter (\<lambda>t. t \<noteq> []) (map (strings_TrimSpace U) (strings_Split (namesFlag flags) CHR '',''))"
    for flags a pc T name
  proof (cases "namesFlag flags = []")
    case True
    with m have "includeNames pc = {}"
      by (auto simp: main_node_def NewProcessCollector_node_def)
    moreover from True T have "T = []" by (simp add: trim_empty)
    ultimately show ?thesis by (simp add: skipped_by_filter_def)
  next
    case False
    with m have "includeNames pc = include_range U (strings_Split (namesFlag flags) CHR '','') {}"
      by (auto simp: main_node_def NewProcessCollector_node_def)
    then have inc: "includeNames pc = {normalizeName U t | t. t \<in> set T}"
      unfolding T include_range_eq by simp
    show ?thesis
    proof (cases "T = []")
      case True
      with inc show ?thesis by (simp add: skipped_by_filter_def)
    next
      case False
      then have "includeNames pc \<noteq> {}" using inc by (cases T) auto
      then show ?thesis using inc False by (auto simp: skipped_by_filter_def Let_def)
    qed
  qed
  have B: "\<not> skipped_by_filter U pc ''Nginx.exe''"
    if m: "main_node U \<lparr>namesFlag = ''nginx'', addrFlag = a\<rparr> = ListenAndServe a pc" for a pc
  proof -
    have T: "[''nginx''] = filter (\<lambda>t. t \<noteq> [])
               (map (strings_TrimSpace U) (strings_Split (namesFlag \<lparr>namesFlag = ''nginx'', addrFlag = a\<rparr>) CHR '',''))"
      by code_simp
    have "normalizeName U ''Nginx.exe'' = normalizeName U ''nginx''" by code_simp
    with A [OF m T, of "''Nginx.exe''"] show ?thesis by simp
  qed
  from A B L normalizeName_cases [where U = U and n = name and b = b] show ?thesis by blast
qed

theorem normalized_equality_match_witness:
  "main_node ascii_only \<lparr>namesFlag = ''nginx'', addrFlag = '':9002''\<rparr>
     = ListenAndServe '':9002'' (NewProcessCollector_node {''nginx''}) \<and>
   [''nginx''] = filter (\<lambda>t. t \<noteq> [])
      (map (strings_TrimSpace ascii_only)
         (strings_Split (namesFlag \<lparr>namesFlag = ''nginx'', addrFlag = '':9002''\<rparr>) CHR '','')) \<and>
   strings_ToLower ascii_only ''Nginx.exe'' = ''nginx'' @ ''.exe'' \<and>
   normalizeName ascii_only ''Nginx.exe'' = ''nginx'' \<and>
   \<not> skipped_by_filter ascii_only (NewProcessCollector_node {''nginx''}) ''Nginx.exe'' \<and>
   (\<forall>b. strings_ToLower ascii_only ''Bash'' \<noteq> b @ ''.exe'') \<and>
   normalizeName ascii_only ''Bash'' = strings_ToLower ascii_only ''Bash'' \<and>
   skipped_by_filter ascii_only (NewProcessCollector_node {''nginx''}) ''Bash''"
proof -
  let ?flags = "\<lparr>namesFlag = ''nginx'', addrFlag = '':9002''\<rparr>"
  let ?pc = "NewProcessCollector_node {''nginx''}"
  have m: "main_node ascii_only ?flags = ListenAndServe '':9002'' ?pc"
  proof -
    have "include_range ascii_only (strings_Split ''nginx'' CHR '','') {} = {''nginx''}"
      by code_simp
    then show ?thesis by (simp add: main_node_def)
  qed
  have T: "[''nginx''] = filter (\<lambda>t. t \<noteq> [])
             (map (strings_TrimSpace ascii_only) (strings_Split (namesFlag ?flags) CHR '',''))"
    by code_simp
  have l1: "strings_ToLower ascii_only ''Nginx.exe'' = ''nginx'' @ ''.exe''"
    by code_simp
  have "\<not> strings_HasSuffix (strings_ToLower ascii_only ''Bash'') ''.exe''"
    by code_simp
  then have l2: "\<forall>b. strings_ToLower ascii_only ''Bash'' \<noteq> b @ ''.exe''"
    by (simp only: strings_HasSuffix_iff) blast
  have n: "normalizeName ascii_only ''Bash'' \<noteq> normalizeName ascii_only ''nginx''"
    by code_simp
  note A = normalized_equality_match
             [where U = ascii_only and flags = ?flags and a = "'':9002''" and pc = ?pc
                and T = "[''nginx'']" and name = "''Nginx.exe''" and b = "''nginx''"]
  note B = normalized_equality_match
             [where U = ascii_only and flags = ?flags and a = "'':9002''" and pc = ?pc
                and T = "[''nginx'']" and name = "''Bash''" and b = "[]"]
  from A l1 have c2: "normalizeName ascii_only ''Nginx.exe'' = ''nginx''"
    by blast
  from A m have s1: "\<not> skipped_by_filter ascii_only ?pc ''Nginx.exe''"
    by blast
  from B l2 have c3: "normalizeName ascii_only ''Bash'' = strings_ToLower ascii_only ''Bash''"
    by blast
  from B m T have "(\<not> skipped_by_filter ascii_only ?pc ''Bash'') =
      ([''nginx''] = [] \<or> (\<exists>t \<in> set [''nginx'']. normalizeName ascii_only ''Bash'' = normalizeName ascii_only t))"
    by blast
  with n have s2: "skipped_by_filter ascii_only ?pc ''Bash''"
    by simp
  show ?thesis
    by (intro conjI) (fact m T l1 c2 s1 l2 c3 s2)+
qed

text \<open>
  The claim as stated fails where no target name is configured: the include set is
  empty, no normalised target name exists, and the process \<open>bash\<close> passes the filter.
\<close>

theorem empty_include_set_matches_all:
  "main_node ascii_only \<lparr>namesFlag = [], addrFlag = '':9002''\<rparr>
     = ListenAndServe '':9002'' (NewProcessCollector_node {}) \<and>
   includeNames (NewProcessCollector_node {}) = {} \<and>
   \<not> skipped_by_filter ascii_only (NewProcessCollector_node {}) ''bash''"
  by (simp add: main_node_def skipped_by_filter_def NewProcessCollector_node_def)

section \<open>Decimal PID labels\<close>

text \<open>\<open>strconv.Itoa\<close> is injective, and so is the \<open>pid\<close> label as a function of the PID.\<close>

lemma digit_char_inj: "a < 10 \<Longrightarrow> b < 10 \<Longrightarrow> digit_char a = digit_char b \<Longrightarrow> a = b"
proof -
  assume a: "a < 10" and b: "b < 10" and e: "digit_char a = digit_char b"
  from e have "(of_char (digit_char a) :: nat) = of_char (digit_char b)" by simp
  with a b show "a = b" by (simp add: digit_char_def)
qed

lemma digit_char_not_minus: "d < 10 \<Longrightarrow> digit_char d \<noteq> CHR ''-''"
proof
  assume d: "d < 10" and e: "digit_char d = CHR ''-''"
  from e have "(of_char (digit_char d) :: nat) = of_char CHR ''-''" by simp
  with d show False by (simp add: digit_char_def)
qed

lemma format_nat_nonempty: "format_nat n \<noteq> []"
  by (subst format_nat.simps) simp

lemma format_nat_hd: "hd (format_nat n) \<noteq> CHR ''-''"
proof (induction n rule: format_nat.induct)
  case (1 n)
  show ?case
  proof (cases "n < 10")
    case True
    then show ?thesis by (subst format_nat.simps) (simp add: digit_char_not_minus)
  next
    case False
    with 1 have "hd (format_nat (n div 10)) \<noteq> CHR ''-''" by simp
    with False show ?thesis
      by (subst format_nat.simps) (simp add: format_nat_nonempty)
  qed
qed

lemma format_nat_inj: "format_nat n = format_nat m \<Longrightarrow> n = m"
proof (induction n arbitrary: m rule: format_nat.induct)
  case (1 n)
  show ?case
  proof (cases "n < 10")
    case n: True
    show ?thesis
    proof (cases "m < 10")
      case True
      with n 1(2) show ?thesis
        by (simp add: format_nat.simps [of n] format_nat.simps [of m] digit_char_inj)
    next
      case False
      with n 1(2) show ?thesis
        using format_nat_nonempty [of "m div 10"]
        by (simp add: format_nat.simps [of n] format_nat.simps [of m])
    qed
  next
    case n: False
    show ?thesis
    proof (cases "m < 10")
      case True
      with n 1(2) show ?thesis
        by (simp add: format_nat.simps [of n] format_nat.simps [of m] format_nat_nonempty)
    next
      case False
      with n 1(2) have e: "format_nat (n div 10) = format_nat (m div 10)"
        and d: "digit_char (n mod 10) = digit_char (m mod 10)"
        by (simp_all add: format_nat.simps [of n] format_nat.simps [of m])
      from 1(1) [OF n e] have "n div 10 = m div 10" .
      moreover from d have "n mod 10 = m mod 10" by (simp add: digit_char_inj)
      ultimately show ?thesis by (metis div_mult_mod_eq)
    qed
  qed
qed

lemma strconv_Itoa_inj: "strconv_Itoa i = strconv_Itoa j \<Longrightarrow> i = j"
proof -
  assume e: "strconv_Itoa i = strconv_Itoa j"
  have neg: "format_nat a \<noteq> CHR ''-'' # s" for a s
    using format_nat_hd [of a] by (metis list.sel(1))
  show "i = j"
  proof (cases "i < 0")
    case i: True
    show ?thesis
    proof (cases "j < 0")
      case True
      with i e have "format_nat (nat (- i)) = format_nat (nat (- j))"
        by (simp add: strconv_Itoa_def)
      then have "nat (- i) = nat (- j)" by (rule format_nat_inj)
      with i True show ?thesis by simp
    next
      case False
      with i e neg [of "nat j"] show ?thesis by (simp add: strconv_Itoa_def) metis
    qed
  next
    case i: False
    show ?thesis
    proof (cases "j < 0")
      case True
      with i e neg [of "nat i"] show ?thesis by (simp add: strconv_Itoa_def)
    next
      case False
      with i e have "format_nat (nat i) = format_nat (nat j)"
        by (simp add: strconv_Itoa_def)
      then have "nat i = nat j" by (rule format_nat_inj)
      with i False show ?thesis by simp
    qed
  qed
qed

lemma pid_label_inj:
  "strconv_Itoa (sint (a :: int32)) = strconv_Itoa (sint b) \<longleftrightarrow> a = b"
proof
  assume "strconv_Itoa (sint a) = strconv_Itoa (sint b)"
  then have "sint a = sint b" by (rule strconv_Itoa_inj)
  then show "a = b" by (simp add: signed_word_eqI)
qed simp


section \<open>A scrape of the cached exporter\<close>

text \<open>
  With the descriptors of \<open>NewProcessCollector\<close> every \<open>MustNewConstMetric\<close> of
  \<open>Collect\<close> gets two label values for two variable labels, the name of the entry and
  the decimal numeral of its PID. So the call for an entry panics exactly when
  \<open>Times()\<close> succeeds on the entry and its name is not valid UTF-8, at the first
  metric of the entry; the scrape is the concatenation of what each target contributes,
  up to the first target that panics.
\<close>

lemma well_described_arity:
  assumes "well_described c"
  shows "length (variableLabels (up c)) = 2" "length (variableLabels (cpuUser c)) = 2"
    "length (variableLabels (cpuSystem c)) = 2" "length (variableLabels (memoryRSS c)) = 2"
    "length (variableLabels (memoryVMS c)) = 2" "length (variableLabels (numThreads c)) = 2"
    "length (variableLabels (openFDs c)) = 2" "length (variableLabels (startTime c)) = 2"
  using assms by (simp_all add: well_described_def Describe_def NewProcessCollector_def NewDesc_def)

lemma well_described_New: "well_described (NewProcessCollector names)"
  by (simp add: well_described_def Describe_def NewProcessCollector_def)

lemma well_described_cache_update: "well_described (c\<lparr>cachedProcs := m\<rparr>) = well_described c"
  by (simp add: well_described_def Describe_def)

lemma well_described_refresh:
  "well_described c \<Longrightarrow> well_described (fst (refreshProcessCache c os))"
  by (simp add: refreshProcessCache_def well_described_cache_update split: sum.splits)

lemma send_valid:
  "\<not> panicked st \<Longrightarrow> length lvs = length (variableLabels d) \<Longrightarrow>
   list_all utf8_ValidString lvs \<Longrightarrow>
   send st (MustNewConstMetric d vt v lvs) = st\<lparr>sent := sent st @ [const_metric d vt v lvs]\<rparr>"
  by (simp add: send_def MustNewConstMetric_def const_metric_def)

lemma send_invalid:
  "\<not> panicked st \<Longrightarrow> \<not> list_all utf8_ValidString lvs \<Longrightarrow>
   send st (MustNewConstMetric d vt v lvs) = st\<lparr>panicked := True\<rparr>"
  by (simp add: send_def MustNewConstMetric_def)

lemma send_panicked: "panicked st \<Longrightarrow> send st m = st"
  by (simp add: send_def)

lemma log_Printf_panicked: "panicked st \<Longrightarrow> log_Printf st line = st"
  by (simp add: log_Printf_def)

lemma collect_target_panicked:
  "panicked st \<Longrightarrow> collect_target c os target st = st"
  by (cases "Process_Times os (Proc target)"; cases "Process_MemoryInfo os (Proc target)";
      cases "Process_NumThreads os (Proc target)"; cases "Process_NumFDs os (Proc target)";
      cases "Process_CreateTime os (Proc target)")
     (simp_all add: collect_target_def send_panicked Let_def)

lemma collect_target_result:
  assumes wd: "well_described c" and np: "\<not> panicked st"
  shows "collect_target c os target st =
           (if isl (Process_Times os (Proc target)) then st
            else if utf8_ValidString (Name target)
              then st\<lparr>sent := sent st @ target_samples c os target\<rparr>
              else st\<lparr>panicked := True\<rparr>)"
proof (cases "Process_Times os (Proc target)")
  case (Inl err)
  then show ?thesis by (simp add: collect_target_def)
next
  case (Inr cpu_times)
  note ar = well_described_arity [OF wd]
  show ?thesis
  proof (cases "utf8_ValidString (Name target)")
    case True
    show ?thesis
      by (cases "Process_MemoryInfo os (Proc target)";
          cases "Process_NumThreads os (Proc target)";
          cases "Process_NumFDs os (Proc target)"; cases "Process_CreateTime os (Proc target)")
         (simp_all add: collect_target_def target_samples_def send_valid ar Inr True np Let_def)
  next
    case False
    show ?thesis
      by (cases "Process_MemoryInfo os (Proc target)";
          cases "Process_NumThreads os (Proc target)";
          cases "Process_NumFDs os (Proc target)"; cases "Process_CreateTime os (Proc target)")
         (simp_all add: collect_target_def send_invalid send_panicked Inr False np Let_def)
  qed
qed

lemma collect_range_panicked: "panicked st \<Longrightarrow> collect_range c os ts st = st"
  by (cases ts) (simp_all add: collect_target_panicked Let_def)

lemma collect_range_result:
  assumes wd: "well_described c"
  shows "\<not> panicked st \<Longrightarrow>
         collect_range c os ts st =
           st\<lparr>sent := sent st @ concat (map (target_samples c os)
                                         (takeWhile (\<lambda>t. \<not> target_panics os t) ts)),
              panicked := (\<exists>t \<in> set ts. target_panics os t)\<rparr>"
proof (induction ts arbitrary: st)
  case Nil
  then show ?case by simp
next
  case (Cons t ts)
  note ct = collect_target_result [OF wd Cons.prems, of os t]
  show ?case
  proof (cases "isl (Process_Times os (Proc t))")
    case True
    then have "target_samples c os t = []" by (auto simp: target_samples_def isl_def)
    with True Cons.prems Cons.IH [OF Cons.prems] show ?thesis
      by (simp add: ct target_panics_def Let_def)
  next
    case False
    show ?thesis
    proof (cases "utf8_ValidString (Name t)")
      case True
      let ?st = "st\<lparr>sent := sent st @ target_samples c os t\<rparr>"
      from Cons.prems have "\<not> panicked ?st" by simp
      from Cons.IH [OF this] True False Cons.prems show ?thesis
        by (simp add: ct target_panics_def Let_def)
    next
      case v: False
      with False Cons.prems show ?thesis
        by (simp add: ct target_panics_def Let_def)
    qed
  qed
qed

lemma Collect_result:
  assumes "well_described c"
  shows "Collect c order os =
           (c, \<lparr>sent = concat (map (target_samples c os)
                               (takeWhile (\<lambda>t. \<not> target_panics os t)
                                  (List.map_filter (cachedProcs c) order))),
                logged = [],
                panicked = (\<exists>t \<in> set (List.map_filter (cachedProcs c) order).
                              target_panics os t)\<rparr>)"
  by (simp add: Collect_def collect_range_result [OF assms] new_scrape_def Let_def)

lemma takeWhile_map_filter:
  "\<exists>k. takeWhile P (List.map_filter f xs) = List.map_filter f (take k xs)"
proof (induction xs)
  case Nil
  then show ?case by (simp add: List.map_filter_simps)
next
  case (Cons x xs)
  then obtain k where k: "takeWhile P (List.map_filter f xs) = List.map_filter f (take k xs)"
    by blast
  show ?case
  proof (cases "f x")
    case None
    with k have "takeWhile P (List.map_filter f (x # xs)) = List.map_filter f (take (Suc k) (x # xs))"
      by (simp add: List.map_filter_simps)
    then show ?thesis by blast
  next
    case (Some y)
    show ?thesis
    proof (cases "P y")
      case True
      with Some k
      have "takeWhile P (List.map_filter f (x # xs)) = List.map_filter f (take (Suc k) (x # xs))"
        by (simp add: List.map_filter_simps)
      then show ?thesis by blast
    next
      case False
      with Some
      have "takeWhile P (List.map_filter f (x # xs)) = List.map_filter f (take 0 (x # xs))"
        by (simp add: List.map_filter_simps)
      then show ?thesis by blast
    qed
  qed
qed

lemma set_map_filter:
  "set (List.map_filter f xs) = {y. \<exists>x \<in> set xs. f x = Some y}"
  by (induction xs) (auto simp: List.map_filter_simps split: option.splits)

lemma target_samples_labels:
  "m \<in> set (target_samples c os target) \<Longrightarrow>
   metric_labelValues m = [Name target, strconv_Itoa (sint (Pid (Proc target)))]"
  by (cases "Process_Times os (Proc target)"; cases "Process_MemoryInfo os (Proc target)";
      cases "Process_NumThreads os (Proc target)"; cases "Process_NumFDs os (Proc target)";
      cases "Process_CreateTime os (Proc target)")
     (auto simp: target_samples_def const_metric_def Let_def)

lemma target_samples_for_pid:
  "m \<in> set (target_samples c os target) \<Longrightarrow> for_pid pid m \<longleftrightarrow> Pid (Proc target) = pid"
  by (auto simp: for_pid_def pid_label_inj dest!: target_samples_labels)

lemma filter_for_pid_own:
  "Pid (Proc target) = pid \<Longrightarrow>
   filter (for_pid pid) (target_samples c os target) = target_samples c os target"
  by (simp add: target_samples_for_pid cong: filter_cong)

lemma filter_for_pid_other:
  "Pid (Proc target) \<noteq> pid \<Longrightarrow> filter (for_pid pid) (target_samples c os target) = []"
  by (simp add: target_samples_for_pid filter_empty_conv)

lemma cache_keyed_update:
  "cache_keyed m \<Longrightarrow> cache_keyed (m(Pid p \<mapsto> \<lparr>Proc = p, Name = name\<rparr>))"
  by (simp add: cache_keyed_def)

lemma cache_keyed_refresh_range:
  "cache_keyed m \<Longrightarrow> cache_keyed (refresh_range c os ps m)"
proof (induction ps arbitrary: m)
  case Nil
  then show ?case by simp
next
  case (Cons p ps)
  show ?case
  proof (cases "Process_Name os p")
    case (Inl err)
    with Cons show ?thesis by simp
  next
    case (Inr name)
    from Cons.prems have "cache_keyed (m(Pid p \<mapsto> \<lparr>Proc = p, Name = name\<rparr>))"
      by (rule cache_keyed_update)
    then have "cache_keyed (refresh_range c os ps (m(Pid p \<mapsto> \<lparr>Proc = p, Name = name\<rparr>)))"
      by (rule Cons.IH)
    moreover from Cons.prems have "cache_keyed (refresh_range c os ps m)"
      by (rule Cons.IH)
    ultimately show ?thesis using Inr by simp
  qed
qed

lemma cache_keyed_refresh:
  "cache_keyed (cachedProcs c) \<Longrightarrow> cache_keyed (cachedProcs (fst (refreshProcessCache c os)))"
proof (cases "process_Processes os")
  case (Inl err)
  assume "cache_keyed (cachedProcs c)"
  with Inl show ?thesis by (simp add: refreshProcessCache_def)
next
  case (Inr allProcs)
  have "cache_keyed (Map.empty :: int32 \<rightharpoonup> CachedProcess)" by (simp add: cache_keyed_def)
  then have "cache_keyed (refresh_range c os allProcs Map.empty)"
    by (rule cache_keyed_refresh_range)
  with Inr show ?thesis by (simp add: refreshProcessCache_def)
qed

lemma cache_keyed_New: "cache_keyed (cachedProcs (NewProcessCollector names))"
  by (simp add: cache_keyed_def NewProcessCollector_def)

text \<open>The metrics of one PID in a scrape are those of the entry cached under it.\<close>

lemma samples_of_pid:
  assumes k: "cache_keyed m" and d: "distinct order"
  shows "filter (for_pid pid) (concat (map (target_samples c os) (List.map_filter m order)))
           = (case m pid of
                Some e \<Rightarrow> if pid \<in> set order then target_samples c os e else []
              | None \<Rightarrow> [])"
  using d
proof (induction order)
  case Nil
  then show ?case by (simp add: List.map_filter_simps split: option.splits)
next
  case (Cons x xs)
  then have IH: "filter (for_pid pid) (concat (map (target_samples c os) (List.map_filter m xs)))
           = (case m pid of
                Some e \<Rightarrow> if pid \<in> set xs then target_samples c os e else []
              | None \<Rightarrow> [])"
    and x: "x \<notin> set xs" by simp_all
  show ?case
  proof (cases "m x")
    case None
    with IH x show ?thesis
      by (auto simp: List.map_filter_simps split: option.splits)
  next
    case (Some e)
    with k have px: "Pid (Proc e) = x" by (simp add: cache_keyed_def)
    show ?thesis
    proof (cases "x = pid")
      case True
      with Some px IH x show ?thesis
        by (simp add: List.map_filter_simps filter_for_pid_own)
    next
      case False
      with Some px IH x show ?thesis
        by (auto simp: List.map_filter_simps filter_for_pid_other split: option.splits)
    qed
  qed
qed

lemma well_described_distinct: "well_described c \<Longrightarrow> distinct (Describe c)"
  by (simp add: well_described_def Describe_def NewProcessCollector_def NewDesc_def)

lemma up_samples:
  assumes "well_described c"
  shows "filter (\<lambda>m. metric_desc m = up c) (target_samples c os target) =
           (case Process_Times os (Proc target) of
              Inr t \<Rightarrow> [const_metric (up c) GaugeValue (Fin 1)
                          [Name target, strconv_Itoa (sint (Pid (Proc target)))]]
            | Inl err \<Rightarrow> [])"
proof -
  from well_described_distinct [OF assms]
  have d: "cpuUser c \<noteq> up c" "cpuSystem c \<noteq> up c" "memoryRSS c \<noteq> up c"
    "memoryVMS c \<noteq> up c" "numThreads c \<noteq> up c" "openFDs c \<noteq> up c" "startTime c \<noteq> up c"
    by (auto simp: Describe_def)
  show ?thesis
    by (cases "Process_Times os (Proc target)"; cases "Process_MemoryInfo os (Proc target)";
        cases "Process_NumThreads os (Proc target)"; cases "Process_NumFDs os (Proc target)";
        cases "Process_CreateTime os (Proc target)")
       (simp_all add: target_samples_def const_metric_def Let_def d)
qed

text \<open>
  What a scrape holds for one PID: all that the entry cached under it contributes, or
  nothing when a panic ended the scrape before the entry was reached (or at it).
\<close>

lemma Collect_for_pid:
  assumes wd: "well_described c" and k: "cache_keyed (cachedProcs c)" and d: "distinct order"
    and o: "set order = dom (cachedProcs c)" and e: "cachedProcs c pid = Some e"
  shows "\<exists>out. Collect c order os = (c, out) \<and>
     (panicked out \<longleftrightarrow> (\<exists>p t. cachedProcs c p = Some t \<and> target_panics os t)) \<and>
     (filter (for_pid pid) (sent out) = target_samples c os e \<or>
      filter (for_pid pid) (sent out) = []) \<and>
     (\<not> panicked out \<longrightarrow> filter (for_pid pid) (sent out) = target_samples c os e) \<and>
     (\<forall>m \<in> set (sent out). \<exists>p t. cachedProcs c p = Some t \<and> m \<in> set (target_samples c os t))"
proof -
  let ?targets = "List.map_filter (cachedProcs c) order"
  let ?P = "\<lambda>t. \<not> target_panics os t"
  let ?out = "\<lparr>sent = concat (map (target_samples c os) (takeWhile ?P ?targets)),
               logged = [], panicked = (\<exists>t \<in> set ?targets. target_panics os t)\<rparr>"
  have C: "Collect c order os = (c, ?out)" by (rule Collect_result [OF wd])
  have st: "set ?targets = {t. \<exists>p. cachedProcs c p = Some t}"
    using o by (auto simp: set_map_filter)
  have pan: "panicked ?out \<longleftrightarrow> (\<exists>p t. cachedProcs c p = Some t \<and> target_panics os t)"
    using st by auto
  from e o have in_order: "pid \<in> set order" by auto
  obtain n where n: "takeWhile ?P ?targets = List.map_filter (cachedProcs c) (take n order)"
    using takeWhile_map_filter [of ?P "cachedProcs c" order] by blast
  from d have "distinct (take n order)" by simp
  from samples_of_pid [OF k this, of pid c os] e
  have f: "filter (for_pid pid) (sent ?out) =
             (if pid \<in> set (take n order) then target_samples c os e else [])"
    by (simp add: n)
  then have either: "filter (for_pid pid) (sent ?out) = target_samples c os e \<or>
      filter (for_pid pid) (sent ?out) = []"
    by (cases "pid \<in> set (take n order)") simp_all
  have all: "filter (for_pid pid) (sent ?out) = target_samples c os e" if "\<not> panicked ?out"
  proof -
    from that have tw: "takeWhile ?P ?targets = ?targets" by (simp add: takeWhile_eq_all_conv)
    from samples_of_pid [OF k d, of pid c os] e in_order
    have "filter (for_pid pid) (concat (map (target_samples c os) ?targets))
            = target_samples c os e" by simp
    then show ?thesis by (simp only: tw Scrape.simps)
  qed
  have from_cache: "\<exists>p t. cachedProcs c p = Some t \<and> m \<in> set (target_samples c os t)"
    if "m \<in> set (sent ?out)" for m
  proof -
    from that obtain t where "t \<in> set (takeWhile ?P ?targets)" "m \<in> set (target_samples c os t)"
      by auto
    moreover then have "t \<in> set ?targets" by (auto dest: set_takeWhileD)
    ultimately show ?thesis using st by auto
  qed
  from C pan either all from_cache show ?thesis by blast
qed

lemma target_samples_present:
  assumes "Process_Times os (Proc t) = Inr cpu"
  defines "lvs \<equiv> [Name t, strconv_Itoa (sint (Pid (Proc t)))]"
  shows "const_metric (cpuUser c) CounterValue (User cpu) lvs \<in> set (target_samples c os t)"
    and "const_metric (cpuSystem c) CounterValue (System cpu) lvs \<in> set (target_samples c os t)"
    and "const_metric (up c) GaugeValue (Fin 1) lvs \<in> set (target_samples c os t)"
    and "Process_MemoryInfo os (Proc t) = Inr mem \<Longrightarrow>
          const_metric (memoryRSS c) GaugeValue (float64_of_uint64 (RSS mem)) lvs
            \<in> set (target_samples c os t) \<and>
          const_metric (memoryVMS c) GaugeValue (float64_of_uint64 (VMS mem)) lvs
            \<in> set (target_samples c os t)"
    and "Process_NumThreads os (Proc t) = Inr n \<Longrightarrow>
          const_metric (numThreads c) GaugeValue (float64_of_int32 n) lvs
            \<in> set (target_samples c os t)"
    and "Process_NumFDs os (Proc t) = Inr fds \<Longrightarrow>
          const_metric (openFDs c) GaugeValue (float64_of_int32 fds) lvs
            \<in> set (target_samples c os t)"
    and "Process_CreateTime os (Proc t) = Inr createTime \<Longrightarrow>
          const_metric (startTime c) GaugeValue
            (float64_div (float64_of_int64 createTime) (Fin 1000)) lvs
            \<in> set (target_samples c os t)"
  using assms(1) by (simp_all add: target_samples_def lvs_def Let_def)

lemma target_samples_desc:
  assumes m: "m \<in> set (target_samples c os t)"
  shows "metric_desc m \<in> {cpuUser c, cpuSystem c, up c} \<or>
         (\<not> isl (Process_MemoryInfo os (Proc t)) \<and>
            metric_desc m \<in> {memoryRSS c, memoryVMS c}) \<or>
         (\<not> isl (Process_NumThreads os (Proc t)) \<and> metric_desc m = numThreads c) \<or>
         (\<not> isl (Process_NumFDs os (Proc t)) \<and> metric_desc m = openFDs c) \<or>
         (\<not> isl (Process_CreateTime os (Proc t)) \<and> metric_desc m = startTime c)"
proof (cases "Process_Times os (Proc t)")
  case (Inl err)
  with m show ?thesis by (simp add: target_samples_def)
next
  case (Inr cpu)
  let ?lvs = "[Name t, strconv_Itoa (sint (Pid (Proc t)))]"
  let ?X = "case Process_MemoryInfo os (Proc t) of
               Inr mem \<Rightarrow>
                 [const_metric (memoryRSS c) GaugeValue (float64_of_uint64 (RSS mem)) ?lvs,
                  const_metric (memoryVMS c) GaugeValue (float64_of_uint64 (VMS mem)) ?lvs]
             | Inl err \<Rightarrow> []"
  let ?Y = "case Process_NumThreads os (Proc t) of
               Inr n \<Rightarrow> [const_metric (numThreads c) GaugeValue (float64_of_int32 n) ?lvs]
             | Inl err \<Rightarrow> []"
  let ?Z = "case Process_NumFDs os (Proc t) of
               Inr fds \<Rightarrow> [const_metric (openFDs c) GaugeValue (float64_of_int32 fds) ?lvs]
             | Inl err \<Rightarrow> []"
  let ?W = "case Process_CreateTime os (Proc t) of
               Inr createTime \<Rightarrow>
                 [const_metric (startTime c) GaugeValue
                    (float64_div (float64_of_int64 createTime) (Fin 1000)) ?lvs]
             | Inl err \<Rightarrow> []"
  have ts: "target_samples c os t =
          [const_metric (cpuUser c) CounterValue (User cpu) ?lvs,
           const_metric (cpuSystem c) CounterValue (System cpu) ?lvs]
          @ ?X @ ?Y @ ?Z @ ?W @ [const_metric (up c) GaugeValue (Fin 1) ?lvs]"
    using Inr by (simp add: target_samples_def Let_def)
  from m consider
      (a) "m = const_metric (cpuUser c) CounterValue (User cpu) ?lvs"
    | (b) "m = const_metric (cpuSystem c) CounterValue (System cpu) ?lvs"
    | (x) "m \<in> set ?X" | (y) "m \<in> set ?Y" | (z) "m \<in> set ?Z" | (w) "m \<in> set ?W"
    | (u) "m = const_metric (up c) GaugeValue (Fin 1) ?lvs"
    unfolding ts set_append by auto
  then show ?thesis
  proof cases
    case a
    then show ?thesis by (simp add: const_metric_def)
  next
    case b
    then show ?thesis by (simp add: const_metric_def)
  next
    case x
    then have "\<not> isl (Process_MemoryInfo os (Proc t)) \<and>
            metric_desc m \<in> {memoryRSS c, memoryVMS c}"
      by (cases "Process_MemoryInfo os (Proc t)") (auto simp: const_metric_def)
    then show ?thesis by blast
  next
    case y
    then have "\<not> isl (Process_NumThreads os (Proc t)) \<and> metric_desc m = numThreads c"
      by (cases "Process_NumThreads os (Proc t)") (auto simp: const_metric_def)
    then show ?thesis by blast
  next
    case z
    then have "\<not> isl (Process_NumFDs os (Proc t)) \<and> metric_desc m = openFDs c"
      by (cases "Process_NumFDs os (Proc t)") (auto simp: const_metric_def)
    then show ?thesis by blast
  next
    case w
    then have "\<not> isl (Process_CreateTime os (Proc t)) \<and> metric_desc m = startTime c"
      by (cases "Process_CreateTime os (Proc t)") (auto simp: const_metric_def)
    then show ?thesis by blast
  next
    case u
    then show ?thesis by (simp add: const_metric_def)
  qed
qed

lemma target_samples_absent:
  assumes wd: "well_described c" and m: "m \<in> set (target_samples c os t)"
  shows "isl (Process_MemoryInfo os (Proc t)) \<Longrightarrow>
           metric_desc m \<noteq> memoryRSS c \<and> metric_desc m \<noteq> memoryVMS c"
    and "isl (Process_NumThreads os (Proc t)) \<Longrightarrow> metric_desc m \<noteq> numThreads c"
    and "isl (Process_NumFDs os (Proc t)) \<Longrightarrow> metric_desc m \<noteq> openFDs c"
    and "isl (Process_CreateTime os (Proc t)) \<Longrightarrow> metric_desc m \<noteq> startTime c"
proof -
  from well_described_distinct [OF wd]
  have d: "distinct [up c, cpuUser c, cpuSystem c, memoryRSS c, memoryVMS c, numThreads c,
             openFDs c, startTime c]"
    by (simp add: Describe_def)
  note s = target_samples_desc [OF m]
  show "isl (Process_MemoryInfo os (Proc t)) \<Longrightarrow>
           metric_desc m \<noteq> memoryRSS c \<and> metric_desc m \<noteq> memoryVMS c"
    using s d by auto
  show "isl (Process_NumThreads os (Proc t)) \<Longrightarrow> metric_desc m \<noteq> numThreads c"
    using s d by auto
  show "isl (Process_NumFDs os (Proc t)) \<Longrightarrow> metric_desc m \<noteq> openFDs c"
    using s d by auto
  show "isl (Process_CreateTime os (Proc t)) \<Longrightarrow> metric_desc m \<noteq> startTime c"
    using s d by auto
qed

text \<open>The collector \<open>c_nginx\<close> and its one entry.\<close>

lemma c_nginx_eq:
  "c_nginx = (NewProcessCollector [''nginx''])\<lparr>cachedProcs := [101 \<mapsto> entry_101]\<rparr>"
  by (simp add: c_nginx_def refreshProcessCache_def os_boot_def pid_query_def
        NewProcessCollector_def isTarget_def entry_101_def)

lemma c_nginx_facts:
  "well_described c_nginx" "cache_keyed (cachedProcs c_nginx)"
  "set [101] = dom (cachedProcs c_nginx)" "cachedProcs c_nginx 101 = Some entry_101"
  by (simp_all add: c_nginx_eq well_described_cache_update well_described_New cache_keyed_def
        entry_101_def)

lemma itoa_101: "strconv_Itoa (sint (101 :: int32)) = ''101''" "strconv_Itoa 101 = ''101''"
  by code_simp+

lemma entry_101_valid: "utf8_ValidString (Name entry_101)"
  by (simp add: entry_101_def utf8_ValidString_def)

lemma c_nginx_valid: "valid_names (cachedProcs c_nginx)"
  by (simp add: valid_names_def c_nginx_eq entry_101_valid)

text \<open>The conversions and the division at the values of these inputs.\<close>

lemma float64_of_int32_small:
  "float64_of_int32 w = Fin (real_of_int (sint w))"
proof -
  have "- (2 ^ 31) \<le> sint w" "sint w < 2 ^ 31"
    using sint_ge [of w] sint_lt [of w] by simp_all
  then have "\<bar>sint w\<bar> < 2 ^ 53" by simp
  from round64_of_int [OF this] show ?thesis by (simp add: float64_of_int32_def)
qed

lemma float64_of_int_small:
  "\<bar>i\<bar> < 2 ^ 53 \<Longrightarrow> float64_of_int i = Fin (real_of_int i)"
  by (simp add: float64_of_int_def round64_of_int)

lemma start_time_101:
  "float64_div (float64_of_int64 1700000000000) (Fin 1000) = Fin 1700000000"
proof -
  have "float64_of_int64 1700000000000 = Fin 1700000000000"
    using round64_of_int [of 1700000000000] by (simp add: float64_of_int64_def)
  moreover have "round64 1700000000 = Fin 1700000000"
    using round64_of_int [of 1700000000] by simp
  ultimately show ?thesis by simp
qed

text \<open>
  Claim C1, as the code has it. \<open>Collect\<close> leaves the collector as it was, and its call
  ends without a panic whenever the names in the cache are valid UTF-8. For an entry
  cached under \<open>pid\<close>: when \<open>Times()\<close> fails, the scrape has no metric at all for \<open>pid\<close>
  (the loop goes on to the next entry); when \<open>Times()\<close> succeeds and the call ends
  without a panic, the two CPU counters and the \<open>up\<close> gauge are in the scrape, and each
  of memory, thread count, open FDs and start time is in the scrape when its own query
  succeeds; and in every scrape each of these four is absent for \<open>pid\<close> when its own
  query fails, whatever the other queries do.
\<close>

theorem cached_collect_per_statistic:
  assumes "well_described c" and "cache_keyed (cachedProcs c)" and "distinct order"
    and "set order = dom (cachedProcs c)" and "cachedProcs c pid = Some e"
  shows "\<exists>out. Collect c order os = (c, out) \<and>
     (valid_names (cachedProcs c) \<longrightarrow> \<not> panicked out) \<and>
     (isl (Process_Times os (Proc e)) \<longrightarrow> filter (for_pid pid) (sent out) = []) \<and>
     (\<not> panicked out \<longrightarrow>
        (\<forall>cpu. Process_Times os (Proc e) = Inr cpu \<longrightarrow>
           const_metric (cpuUser c) CounterValue (User cpu) [Name e, strconv_Itoa (sint pid)]
             \<in> set (sent out) \<and>
           const_metric (cpuSystem c) CounterValue (System cpu) [Name e, strconv_Itoa (sint pid)]
             \<in> set (sent out) \<and>
           const_metric (up c) GaugeValue (Fin 1) [Name e, strconv_Itoa (sint pid)]
             \<in> set (sent out) \<and>
           (\<forall>mem. Process_MemoryInfo os (Proc e) = Inr mem \<longrightarrow>
              const_metric (memoryRSS c) GaugeValue (float64_of_uint64 (RSS mem))
                [Name e, strconv_Itoa (sint pid)] \<in> set (sent out) \<and>
              const_metric (memoryVMS c) GaugeValue (float64_of_uint64 (VMS mem))
                [Name e, strconv_Itoa (sint pid)] \<in> set (sent out)) \<and>
           (\<forall>n. Process_NumThreads os (Proc e) = Inr n \<longrightarrow>
              const_metric (numThreads c) GaugeValue (float64_of_int32 n)
                [Name e, strconv_Itoa (sint pid)] \<in> set (sent out)) \<and>
           (\<forall>fds. Process_NumFDs os (Proc e) = Inr fds \<longrightarrow>
              const_metric (openFDs c) GaugeValue (float64_of_int32 fds)
                [Name e, strconv_Itoa (sint pid)] \<in> set (sent out)) \<and>
           (\<forall>createTime. Process_CreateTime os (Proc e) = Inr createTime \<longrightarrow>
              const_metric (startTime c) GaugeValue
                (float64_div (float64_of_int64 createTime) (Fin 1000))
                [Name e, strconv_Itoa (sint pid)] \<in> set (sent out)))) \<and>
     (\<forall>m \<in> set (sent out). for_pid pid m \<longrightarrow>
        (isl (Process_MemoryInfo os (Proc e)) \<longrightarrow>
           metric_desc m \<noteq> memoryRSS c \<and> metric_desc m \<noteq> memoryVMS c) \<and>
        (isl (Process_NumThreads os (Proc e)) \<longrightarrow> metric_desc m \<noteq> numThreads c) \<and>
        (isl (Process_NumFDs os (Proc e)) \<longrightarrow> metric_desc m \<noteq> openFDs c) \<and>
        (isl (Process_CreateTime os (Proc e)) \<longrightarrow> metric_desc m \<noteq> startTime c))"
proof -
  from Collect_for_pid [OF assms, of os] obtain out
    where C: "Collect c order os = (c, out)"
      and pan: "panicked out \<longleftrightarrow> (\<exists>p t. cachedProcs c p = Some t \<and> target_panics os t)"
      and either: "filter (for_pid pid) (sent out) = target_samples c os e \<or>
                   filter (for_pid pid) (sent out) = []"
      and all: "\<not> panicked out \<longrightarrow> filter (for_pid pid) (sent out) = target_samples c os e"
    by blast
  from assms(2,5) have pid: "Pid (Proc e) = pid" by (simp add: cache_keyed_def)
  have V: "valid_names (cachedProcs c) \<longrightarrow> \<not> panicked out"
    unfolding pan by (auto simp: valid_names_def target_panics_def)
  have A: "isl (Process_Times os (Proc e)) \<longrightarrow> filter (for_pid pid) (sent out) = []"
  proof
    assume "isl (Process_Times os (Proc e))"
    then have "target_samples c os e = []" by (auto simp: target_samples_def isl_def)
    with either show "filter (for_pid pid) (sent out) = []" by auto
  qed
  have only: "m \<in> set (target_samples c os e)" if "m \<in> set (sent out)" "for_pid pid m" for m
  proof -
    from that have in_f: "m \<in> set (filter (for_pid pid) (sent out))" by simp
    from either show ?thesis
    proof
      assume "filter (for_pid pid) (sent out) = target_samples c os e"
      with in_f show ?thesis by (simp only:)
    next
      assume "filter (for_pid pid) (sent out) = []"
      with in_f show ?thesis by (simp only: list.set empty_iff)
    qed
  qed
  have B: "const_metric (cpuUser c) CounterValue (User cpu) [Name e, strconv_Itoa (sint pid)]
             \<in> set (sent out) \<and>
           const_metric (cpuSystem c) CounterValue (System cpu) [Name e, strconv_Itoa (sint pid)]
             \<in> set (sent out) \<and>
           const_metric (up c) GaugeValue (Fin 1) [Name e, strconv_Itoa (sint pid)]
             \<in> set (sent out) \<and>
           (\<forall>mem. Process_MemoryInfo os (Proc e) = Inr mem \<longrightarrow>
              const_metric (memoryRSS c) GaugeValue (float64_of_uint64 (RSS mem))
                [Name e, strconv_Itoa (sint pid)] \<in> set (sent out) \<and>
              const_metric (memoryVMS c) GaugeValue (float64_of_uint64 (VMS mem))
                [Name e, strconv_Itoa (sint pid)] \<in> set (sent out)) \<and>
           (\<forall>n. Process_NumThreads os (Proc e) = Inr n \<longrightarrow>
              const_metric (numThreads c) GaugeValue (float64_of_int32 n)
                [Name e, strconv_Itoa (sint pid)] \<in> set (sent out)) \<and>
           (\<forall>fds. Process_NumFDs os (Proc e) = Inr fds \<longrightarrow>
              const_metric (openFDs c) GaugeValue (float64_of_int32 fds)
                [Name e, strconv_Itoa (sint pid)] \<in> set (sent out)) \<and>
           (\<forall>createTime. Process_CreateTime os (Proc e) = Inr createTime \<longrightarrow>
              const_metric (startTime c) GaugeValue
                (float64_div (float64_of_int64 createTime) (Fin 1000))
                [Name e, strconv_Itoa (sint pid)] \<in> set (sent out))"
    if np: "\<not> panicked out" and T: "Process_Times os (Proc e) = Inr cpu" for cpu
  proof -
    from all np have f: "filter (for_pid pid) (sent out) = target_samples c os e" by simp
    have sub: "x \<in> set (sent out)" if "x \<in> set (target_samples c os e)" for x
      using that unfolding f [symmetric] by simp
    note Q = target_samples_present [where os = os and t = e and c = c, OF T, unfolded pid]
    show ?thesis
    proof (intro conjI allI impI)
      fix mem assume "Process_MemoryInfo os (Proc e) = Inr mem"
      from Q(4) [OF this]
      show "const_metric (memoryRSS c) GaugeValue (float64_of_uint64 (RSS mem))
              [Name e, strconv_Itoa (sint pid)] \<in> set (sent out)"
        and "const_metric (memoryVMS c) GaugeValue (float64_of_uint64 (VMS mem))
              [Name e, strconv_Itoa (sint pid)] \<in> set (sent out)"
        by (simp_all add: sub)
    qed (rule sub, rule Q, assumption?)+
  qed
  have D: "(isl (Process_MemoryInfo os (Proc e)) \<longrightarrow>
           metric_desc m \<noteq> memoryRSS c \<and> metric_desc m \<noteq> memoryVMS c) \<and>
        (isl (Process_NumThreads os (Proc e)) \<longrightarrow> metric_desc m \<noteq> numThreads c) \<and>
        (isl (Process_NumFDs os (Proc e)) \<longrightarrow> metric_desc m \<noteq> openFDs c) \<and>
        (isl (Process_CreateTime os (Proc e)) \<longrightarrow> metric_desc m \<noteq> startTime c)"
    if "m \<in> set (sent out)" and "for_pid pid m" for m
  proof -
    from that have "m \<in> set (target_samples c os e)" by (rule only)
    from target_samples_absent [OF assms(1) this] show ?thesis by blast
  qed
  from C V A B D show ?thesis by blast
qed

theorem cached_collect_per_statistic_witness:
  "well_described c_nginx \<and> cache_keyed (cachedProcs c_nginx) \<and> distinct [101 :: int32] \<and>
   set [101] = dom (cachedProcs c_nginx) \<and>
   cachedProcs c_nginx 101 = Some entry_101 \<and>
   valid_names (cachedProcs c_nginx) \<and>
   isl (Process_Times os_no_times (Proc entry_101)) \<and>
   (\<exists>out. Collect c_nginx [101] os_no_times = (c_nginx, out) \<and> \<not> panicked out \<and>
      filter (for_pid 101) (sent out) = []) \<and>
   Process_Times os_no_memory (Proc entry_101) = Inr \<lparr>User = Fin 1.5, System = Fin 0.5\<rparr> \<and>
   isl (Process_MemoryInfo os_no_memory (Proc entry_101)) \<and>
   Process_NumThreads os_no_memory (Proc entry_101) = Inr 4 \<and>
   Process_NumFDs os_no_memory (Proc entry_101) = Inr 12 \<and>
   Process_CreateTime os_no_memory (Proc entry_101) = Inr 1700000000000 \<and>
   (\<exists>out. Collect c_nginx [101] os_no_memory = (c_nginx, out) \<and> \<not> panicked out \<and>
      const_metric (cpuUser c_nginx) CounterValue (Fin 1.5) [''nginx'', ''101'']
        \<in> set (sent out) \<and>
      const_metric (cpuSystem c_nginx) CounterValue (Fin 0.5) [''nginx'', ''101'']
        \<in> set (sent out) \<and>
      const_metric (numThreads c_nginx) GaugeValue (Fin 4) [''nginx'', ''101'']
        \<in> set (sent out) \<and>
      const_metric (openFDs c_nginx) GaugeValue (Fin 12) [''nginx'', ''101'']
        \<in> set (sent out) \<and>
      const_metric (startTime c_nginx) GaugeValue (Fin 1700000000) [''nginx'', ''101'']
        \<in> set (sent out) \<and>
      const_metric (up c_nginx) GaugeValue (Fin 1) [''nginx'', ''101''] \<in> set (sent out) \<and>
      (\<forall>m \<in> set (sent out). for_pid 101 m \<longrightarrow>
         metric_desc m \<noteq> memoryRSS c_nginx \<and> metric_desc m \<noteq> memoryVMS c_nginx)) \<and>
   Process_MemoryInfo os_boot (Proc entry_101) = Inr \<lparr>RSS = 209715200, VMS = 419430400\<rparr> \<and>
   Process_Times os_boot (Proc entry_101) = Inr \<lparr>User = Fin 1.5, System = Fin 0.5\<rparr> \<and>
   (\<exists>out. Collect c_nginx [101] os_boot = (c_nginx, out) \<and> \<not> panicked out \<and>
      const_metric (memoryRSS c_nginx) GaugeValue (Fin 209715200) [''nginx'', ''101'']
        \<in> set (sent out) \<and>
      const_metric (memoryVMS c_nginx) GaugeValue (Fin 419430400) [''nginx'', ''101'']
        \<in> set (sent out))"
proof -
  have d: "distinct [101 :: int32]" by simp
  note T = cached_collect_per_statistic [OF c_nginx_facts(1,2) d c_nginx_facts(3,4)]
  note v = c_nginx_valid
  have n: "Name entry_101 = ''nginx''" by (simp add: entry_101_def)
  have q1: "isl (Process_Times os_no_times (Proc entry_101))"
    by (simp add: os_no_times_def pid_query_def entry_101_def)
  have q2: "Process_Times os_no_memory (Proc entry_101) = Inr \<lparr>User = Fin 1.5, System = Fin 0.5\<rparr>"
    "isl (Process_MemoryInfo os_no_memory (Proc entry_101))"
    "Process_NumThreads os_no_memory (Proc entry_101) = Inr 4"
    "Process_NumFDs os_no_memory (Proc entry_101) = Inr 12"
    "Process_CreateTime os_no_memory (Proc entry_101) = Inr 1700000000000"
    by (simp_all add: os_no_memory_def os_boot_def pid_query_def entry_101_def)
  have q3: "Process_MemoryInfo os_boot (Proc entry_101) = Inr \<lparr>RSS = 209715200, VMS = 419430400\<rparr>"
    "Process_Times os_boot (Proc entry_101) = Inr \<lparr>User = Fin 1.5, System = Fin 0.5\<rparr>"
    by (simp_all add: os_boot_def pid_query_def entry_101_def)
  have fv: "float64_of_int32 4 = Fin 4" "float64_of_int32 12 = Fin 12"
    "float64_div (float64_of_int64 1700000000000) (Fin 1000) = Fin 1700000000"
    "float64_of_uint64 209715200 = Fin 209715200" "float64_of_uint64 419430400 = Fin 419430400"
    by (simp_all add: float64_of_int32_small float64_of_uint64_small start_time_101)
  from T [of os_no_times] q1 v
  have A: "\<exists>out. Collect c_nginx [101] os_no_times = (c_nginx, out) \<and> \<not> panicked out \<and>
      filter (for_pid 101) (sent out) = []"
    by blast
  from T [of os_no_memory] v obtain out
    where C: "Collect c_nginx [101] os_no_memory = (c_nginx, out)"
      and np: "\<not> panicked out"
      and P: "\<And>cpu. \<not> panicked out \<Longrightarrow> Process_Times os_no_memory (Proc entry_101) = Inr cpu \<Longrightarrow>
        const_metric (cpuUser c_nginx) CounterValue (User cpu)
          [Name entry_101, strconv_Itoa (sint (101 :: int32))] \<in> set (sent out) \<and>
        const_metric (cpuSystem c_nginx) CounterValue (System cpu)
          [Name entry_101, strconv_Itoa (sint (101 :: int32))] \<in> set (sent out) \<and>
        const_metric (up c_nginx) GaugeValue (Fin 1)
          [Name entry_101, strconv_Itoa (sint (101 :: int32))] \<in> set (sent out) \<and>
        (\<forall>mem. Process_MemoryInfo os_no_memory (Proc entry_101) = Inr mem \<longrightarrow>
           const_metric (memoryRSS c_nginx) GaugeValue (float64_of_uint64 (RSS mem))
             [Name entry_101, strconv_Itoa (sint (101 :: int32))] \<in> set (sent out) \<and>
           const_metric (memoryVMS c_nginx) GaugeValue (float64_of_uint64 (VMS mem))
             [Name entry_101, strconv_Itoa (sint (101 :: int32))] \<in> set (sent out)) \<and>
        (\<forall>n. Process_NumThreads os_no_memory (Proc entry_101) = Inr n \<longrightarrow>
           const_metric (numThreads c_nginx) GaugeValue (float64_of_int32 n)
             [Name entry_101, strconv_Itoa (sint (101 :: int32))] \<in> set (sent out)) \<and>
        (\<forall>fds. Process_NumFDs os_no_memory (Proc entry_101) = Inr fds \<longrightarrow>
           const_metric (openFDs c_nginx) GaugeValue (float64_of_int32 fds)
             [Name entry_101, strconv_Itoa (sint (101 :: int32))] \<in> set (sent out)) \<and>
        (\<forall>createTime. Process_CreateTime os_no_memory (Proc entry_101) = Inr createTime \<longrightarrow>
           const_metric (startTime c_nginx) GaugeValue
             (float64_div (float64_of_int64 createTime) (Fin 1000))
             [Name entry_101, strconv_Itoa (sint (101 :: int32))] \<in> set (sent out))"
      and D: "\<And>m. m \<in> set (sent out) \<Longrightarrow> for_pid 101 m \<Longrightarrow>
        (isl (Process_MemoryInfo os_no_memory (Proc entry_101)) \<longrightarrow>
           metric_desc m \<noteq> memoryRSS c_nginx \<and> metric_desc m \<noteq> memoryVMS c_nginx)"
    by blast
  from P [OF np q2(1)] q2(3-5) D q2(2)
  have "const_metric (cpuUser c_nginx) CounterValue (Fin 1.5) [''nginx'', ''101'']
        \<in> set (sent out) \<and>
      const_metric (cpuSystem c_nginx) CounterValue (Fin 0.5) [''nginx'', ''101'']
        \<in> set (sent out) \<and>
      const_metric (numThreads c_nginx) GaugeValue (Fin 4) [''nginx'', ''101'']
        \<in> set (sent out) \<and>
      const_metric (openFDs c_nginx) GaugeValue (Fin 12) [''nginx'', ''101'']
        \<in> set (sent out) \<and>
      const_metric (startTime c_nginx) GaugeValue (Fin 1700000000) [''nginx'', ''101'']
        \<in> set (sent out) \<and>
      const_metric (up c_nginx) GaugeValue (Fin 1) [''nginx'', ''101''] \<in> set (sent out) \<and>
      (\<forall>m \<in> set (sent out). for_pid 101 m \<longrightarrow>
         metric_desc m \<noteq> memoryRSS c_nginx \<and> metric_desc m \<noteq> memoryVMS c_nginx)"
    by (simp add: n itoa_101 fv)
  with C np have B: "\<exists>out. Collect c_nginx [101] os_no_memory = (c_nginx, out) \<and> \<not> panicked out \<and>
      const_metric (cpuUser c_nginx) CounterValue (Fin 1.5) [''nginx'', ''101'']
        \<in> set (sent out) \<and>
      const_metric (cpuSystem c_nginx) CounterValue (Fin 0.5) [''nginx'', ''101'']
        \<in> set (sent out) \<and>
      const_metric (numThreads c_nginx) GaugeValue (Fin 4) [''nginx'', ''101'']
        \<in> set (sent out) \<and>
      const_metric (openFDs c_nginx) GaugeValue (Fin 12) [''nginx'', ''101'']
        \<in> set (sent out) \<and>
      const_metric (startTime c_nginx) GaugeValue (Fin 1700000000) [''nginx'', ''101'']
        \<in> set (sent out) \<and>
      const_metric (up c_nginx) GaugeValue (Fin 1) [''nginx'', ''101''] \<in> set (sent out) \<and>
      (\<forall>m \<in> set (sent out). for_pid 101 m \<longrightarrow>
         metric_desc m \<noteq> memoryRSS c_nginx \<and> metric_desc m \<noteq> memoryVMS c_nginx)"
    by blast
  from T [of os_boot] v obtain out'
    where C': "Collect c_nginx [101] os_boot = (c_nginx, out')"
      and np': "\<not> panicked out'"
      and P': "\<And>cpu mem. \<not> panicked out' \<Longrightarrow> Process_Times os_boot (Proc entry_101) = Inr cpu \<Longrightarrow>
          Process_MemoryInfo os_boot (Proc entry_101) = Inr mem \<Longrightarrow>
           const_metric (memoryRSS c_nginx) GaugeValue (float64_of_uint64 (RSS mem))
             [Name entry_101, strconv_Itoa (sint (101 :: int32))] \<in> set (sent out') \<and>
           const_metric (memoryVMS c_nginx) GaugeValue (float64_of_uint64 (VMS mem))
             [Name entry_101, strconv_Itoa (sint (101 :: int32))] \<in> set (sent out')"
    by blast
  from P' [OF np' q3(2) q3(1)] C' np'
  have E: "\<exists>out. Collect c_nginx [101] os_boot = (c_nginx, out) \<and> \<not> panicked out \<and>
      const_metric (memoryRSS c_nginx) GaugeValue (Fin 209715200) [''nginx'', ''101'']
        \<in> set (sent out) \<and>
      const_metric (memoryVMS c_nginx) GaugeValue (Fin 419430400) [''nginx'', ''101'']
        \<in> set (sent out)"
    by (simp add: n itoa_101 fv)
  show ?thesis
    by (intro conjI) (fact c_nginx_facts d v q1 q2 q3 A B E)+
qed

text \<open>
  The claim as stated fails where \<open>Times()\<close> is the failing query: the memory, thread,
  FD and start-time queries on PID 101 all answer, and the scrape is empty.
\<close>

theorem times_failure_drops_entry:
  "Process_Times os_no_times \<lparr>Pid = 101\<rparr> = Inl no_such_process \<and>
   Process_MemoryInfo os_no_times \<lparr>Pid = 101\<rparr> = Inr \<lparr>RSS = 209715200, VMS = 419430400\<rparr> \<and>
   Process_NumThreads os_no_times \<lparr>Pid = 101\<rparr> = Inr 4 \<and>
   cachedProcs c_nginx 101 = Some \<lparr>Proc = \<lparr>Pid = 101\<rparr>, Name = ''nginx''\<rparr> \<and>
   Collect c_nginx [101] os_no_times = (c_nginx, \<lparr>sent = [], logged = [], panicked = False\<rparr>)"
proof -
  have "\<not> target_panics os_no_times entry_101"
    by (simp add: target_panics_def entry_101_def os_no_times_def pid_query_def)
  moreover have "target_samples c_nginx os_no_times entry_101 = []"
    by (simp add: target_samples_def entry_101_def os_no_times_def pid_query_def)
  ultimately
  have "Collect c_nginx [101] os_no_times = (c_nginx, \<lparr>sent = [], logged = [], panicked = False\<rparr>)"
    by (simp add: Collect_result [OF c_nginx_facts(1)] c_nginx_facts(4) List.map_filter_simps)
  then show ?thesis
    using c_nginx_facts(4)
    by (simp add: os_no_times_def os_boot_def pid_query_def entry_101_def)
qed

section \<open>A scrape concurrent with a refresh\<close>

text \<open>
  The invariants of the two goroutines: \<open>inv_refresher\<close> and \<open>inv_scraper\<close> hold in the
  initial world and every step keeps them.
\<close>

lemma refresh_range_Cons:
  "refresh_range c os (p # ps) m = refresh_range c os ps (refresh_range c os [p] m)"
  by (simp split: sum.splits)

lemma post_snapshot_cases:
  "(process_Processes os_r = Inl err \<longrightarrow> post_snapshot c os_r = pre_snapshot c) \<and>
   (process_Processes os_r = Inr allProcs \<longrightarrow>
      post_snapshot c os_r = refresh_range c os_r allProcs Map.empty)"
  by (simp add: post_snapshot_def pre_snapshot_def refreshProcessCache_def)

lemma inv_refresher_init: "inv_refresher c os_r (init c)"
  by (simp add: inv_refresher_def init_def pre_snapshot_def)

lemma inv_scraper_init: "inv_scraper c os_r os_s (init c)"
  by (simp add: inv_scraper_def init_def)

lemma inv_refresher_frame:
  "maps w' = maps w \<Longrightarrow> cachedProcs_field w' = cachedProcs_field w \<Longrightarrow>
   refresher w' = refresher w \<Longrightarrow> inv_refresher c os_r w' = inv_refresher c os_r w"
  by (simp add: inv_refresher_def split: refresher.splits)

lemma inv_refresher_step:
  assumes "step c os_r os_s w w'" and "inv_refresher c os_r w"
  shows "inv_refresher c os_r w'"
  using assms
proof (cases rule: step.cases)
  case (refresh_fails err)
  with assms(2) post_snapshot_cases [of os_r err c] show ?thesis
    by (simp add: inv_refresher_def)
next
  case (refresh_make allProcs a)
  have "a \<noteq> 0"
  proof
    assume "a = 0"
    with refresh_make assms(2) show False by (simp add: inv_refresher_def)
  qed
  with refresh_make assms(2) post_snapshot_cases [of os_r _ c allProcs] show ?thesis
    by (simp add: inv_refresher_def)
next
  case (refresh_next a p ps newCache)
  with assms(2) show ?thesis
    using refresh_range_Cons [of c os_r p ps newCache]
    by (simp add: inv_refresher_def)
next
  case (refresh_lock a)
  with assms(2) show ?thesis by (simp add: inv_refresher_def)
next
  case (refresh_swap a)
  with assms(2) show ?thesis by (simp add: inv_refresher_def)
next
  case refresh_unlock
  with assms(2) show ?thesis by (simp add: inv_refresher_def)
next
  case scrape_rlock
  with assms(2) inv_refresher_frame [of w' w c os_r] show ?thesis by simp
next
  case (scrape_range m order)
  with assms(2) inv_refresher_frame [of w' w c os_r] show ?thesis by simp
next
  case (scrape_next a k ks targets m cached)
  with assms(2) inv_refresher_frame [of w' w c os_r] show ?thesis by simp
next
  case (scrape_gone a k ks targets m)
  with assms(2) inv_refresher_frame [of w' w c os_r] show ?thesis by simp
next
  case (scrape_runlock a targets)
  with assms(2) inv_refresher_frame [of w' w c os_r] show ?thesis by simp
next
  case (scrape_collect targets)
  with assms(2) inv_refresher_frame [of w' w c os_r] show ?thesis by simp
qed

lemma map_filter_snoc_Some:
  "snap k = Some v \<Longrightarrow> List.map_filter snap (xs @ [k]) = List.map_filter snap xs @ [v]"
  by (simp add: List.map_filter_def)

lemma map_filter_snoc_None:
  "snap k = None \<Longrightarrow> List.map_filter snap (xs @ [k]) = List.map_filter snap xs"
  by (simp add: List.map_filter_def)

lemma snapshot_at_frame:
  "maps w' a = maps w a \<Longrightarrow> cachedProcs_field w' = cachedProcs_field w \<Longrightarrow>
   refresher w' = refresher w \<Longrightarrow>
   snapshot_at c os_r w' a snap = snapshot_at c os_r w a snap"
  by (simp add: snapshot_at_def)

text \<open>A step of the refresher leaves the snapshot of a running \<open>range\<close> as it is.\<close>

lemma snapshot_at_step:
  assumes st: "step c os_r os_s w w'" and r: "inv_refresher c os_r w"
    and s: "snapshot_at c os_r w a snap"
  shows "snapshot_at c os_r w' a snap"
  using st
proof (cases rule: step.cases)
  case (refresh_fails err)
  with s show ?thesis by (auto simp: snapshot_at_def)
next
  case (refresh_make allProcs b)
  have "b \<noteq> a"
  proof
    assume "b = a"
    with refresh_make s show False by (simp add: snapshot_at_def)
  qed
  with refresh_make s show ?thesis by (auto simp: snapshot_at_def)
next
  case (refresh_next b p ps newCache)
  with r have "b \<noteq> 0" by (simp add: inv_refresher_def)
  with refresh_next s show ?thesis by (auto simp: snapshot_at_def)
next
  case (refresh_lock b)
  with s show ?thesis by (auto simp: snapshot_at_def)
next
  case (refresh_swap b)
  with s show ?thesis by (auto simp: snapshot_at_def)
next
  case refresh_unlock
  with s show ?thesis by (auto simp: snapshot_at_def)
next
  case scrape_rlock
  with s snapshot_at_frame [of w' a w c os_r snap] show ?thesis by simp
next
  case (scrape_range m order)
  with s snapshot_at_frame [of w' a w c os_r snap] show ?thesis by simp
next
  case (scrape_next a' k ks targets m cached)
  with s snapshot_at_frame [of w' a w c os_r snap] show ?thesis by simp
next
  case (scrape_gone a' k ks targets m)
  with s snapshot_at_frame [of w' a w c os_r snap] show ?thesis by simp
next
  case (scrape_runlock a' targets)
  with s snapshot_at_frame [of w' a w c os_r snap] show ?thesis by simp
next
  case (scrape_collect targets)
  with s snapshot_at_frame [of w' a w c os_r snap] show ?thesis by simp
qed

lemma snapshot_at_field:
  assumes r: "inv_refresher c os_r w" and m: "maps w (cachedProcs_field w) = Some m"
  shows "snapshot_at c os_r w (cachedProcs_field w) m"
  using r m by (cases "refresher w") (auto simp: inv_refresher_def snapshot_at_def)

lemma snapshot_at_either:
  "snapshot_at c os_r w a snap \<Longrightarrow> snap = pre_snapshot c \<or> snap = post_snapshot c os_r"
  by (auto simp: snapshot_at_def)

lemma inv_scraper_frame:
  "scraper w' = scraper w \<Longrightarrow>
   (\<And>a snap. snapshot_at c os_r w a snap \<Longrightarrow> snapshot_at c os_r w' a snap) \<Longrightarrow>
   inv_scraper c os_r os_s w \<Longrightarrow> inv_scraper c os_r os_s w'"
  by (cases "scraper w") (auto simp: inv_scraper_def)

lemma inv_scraper_step:
  assumes st: "step c os_r os_s w w'" and r: "inv_refresher c os_r w"
    and s: "inv_scraper c os_r os_s w"
  shows "inv_scraper c os_r os_s w'"
proof -
  note keep = snapshot_at_step [OF st r]
  from st show ?thesis
  proof (cases rule: step.cases)
    case (refresh_fails err)
    then have "scraper w' = scraper w" by simp
    from inv_scraper_frame [OF this keep s] show ?thesis .
  next
    case (refresh_make allProcs b)
    then have "scraper w' = scraper w" by simp
    from inv_scraper_frame [OF this keep s] show ?thesis .
  next
    case (refresh_next b p ps newCache)
    then have "scraper w' = scraper w" by simp
    from inv_scraper_frame [OF this keep s] show ?thesis .
  next
    case (refresh_lock b)
    then have "scraper w' = scraper w" by simp
    from inv_scraper_frame [OF this keep s] show ?thesis .
  next
    case (refresh_swap b)
    then have "scraper w' = scraper w" by simp
    from inv_scraper_frame [OF this keep s] show ?thesis .
  next
    case refresh_unlock
    then have "scraper w' = scraper w" by simp
    from inv_scraper_frame [OF this keep s] show ?thesis .
  next
    case scrape_rlock
    then show ?thesis by (simp add: inv_scraper_def)
  next
    case (scrape_range m order)
    from snapshot_at_field [OF r scrape_range(3)]
    have "snapshot_at c os_r w (cachedProcs_field w) m" .
    then have k: "snapshot_at c os_r w' (cachedProcs_field w) m" by (rule keep)
    from k have "maps w' (cachedProcs_field w) = Some m" by (simp add: snapshot_at_def)
    have "\<exists>snap visited. snapshot_at c os_r w' (cachedProcs_field w) snap \<and>
             distinct (visited @ order) \<and> set (visited @ order) = dom snap \<and>
             [] = List.map_filter snap visited"
      using k scrape_range(4,5)
      by (intro exI [of _ m] exI [of _ "[]"]) (simp add: List.map_filter_simps)
    with scrape_range(1) show ?thesis by (simp add: inv_scraper_def)
  next
    case (scrape_next a k ks targets m cached)
    from s scrape_next(2) obtain snap visited
      where sn: "snapshot_at c os_r w a snap"
        and d: "distinct (visited @ k # ks)" and e: "set (visited @ k # ks) = dom snap"
        and t: "targets = List.map_filter snap visited"
      by (auto simp: inv_scraper_def)
    from sn scrape_next(3) have "snap = m" by (simp add: snapshot_at_def)
    with scrape_next(4) t
    have t': "targets @ [cached] = List.map_filter snap (visited @ [k])"
      by (simp add: map_filter_snoc_Some)
    from d e have "distinct ((visited @ [k]) @ ks)" "set ((visited @ [k]) @ ks) = dom snap"
      by simp_all
    with keep [OF sn] t'
    have "\<exists>snap visited. snapshot_at c os_r w' a snap \<and>
             distinct (visited @ ks) \<and> set (visited @ ks) = dom snap \<and>
             targets @ [cached] = List.map_filter snap visited"
      by blast
    with scrape_next(1) show ?thesis by (simp add: inv_scraper_def)
  next
    case (scrape_gone a k ks targets m)
    from s scrape_gone(2) obtain snap visited
      where sn: "snapshot_at c os_r w a snap"
        and d: "distinct (visited @ k # ks)" and e: "set (visited @ k # ks) = dom snap"
        and t: "targets = List.map_filter snap visited"
      by (auto simp: inv_scraper_def)
    from sn scrape_gone(3) have "snap = m" by (simp add: snapshot_at_def)
    with scrape_gone(4) t
    have t': "targets = List.map_filter snap (visited @ [k])"
      by (simp add: map_filter_snoc_None)
    from d e have "distinct ((visited @ [k]) @ ks)" "set ((visited @ [k]) @ ks) = dom snap"
      by simp_all
    with keep [OF sn] t'
    have "\<exists>snap visited. snapshot_at c os_r w' a snap \<and>
             distinct (visited @ ks) \<and> set (visited @ ks) = dom snap \<and>
             targets = List.map_filter snap visited"
      by blast
    with scrape_gone(1) show ?thesis by (simp add: inv_scraper_def)
  next
    case (scrape_runlock a targets)
    from s scrape_runlock(2) obtain snap visited
      where sn: "snapshot_at c os_r w a snap"
        and d: "distinct visited" and e: "set visited = dom snap"
        and t: "targets = List.map_filter snap visited"
      by (auto simp: inv_scraper_def)
    from snapshot_at_either [OF sn] d e t
    have "\<exists>snap order. (snap = pre_snapshot c \<or> snap = post_snapshot c os_r) \<and>
             distinct order \<and> set order = dom snap \<and>
             targets = List.map_filter snap order"
      by blast
    with scrape_runlock(1) show ?thesis by (simp add: inv_scraper_def)
  next
    case (scrape_collect targets)
    from s scrape_collect(2) obtain snap order
      where "snap = pre_snapshot c \<or> snap = post_snapshot c os_r"
        and "distinct order" and "set order = dom snap"
        and "targets = List.map_filter snap order"
      by (auto simp: inv_scraper_def)
    then have "\<exists>snap order. (snap = pre_snapshot c \<or> snap = post_snapshot c os_r) \<and>
             distinct order \<and> set order = dom snap \<and>
             collect_range c os_s targets new_scrape
               = collect_range c os_s (List.map_filter snap order) new_scrape"
      by blast
    with scrape_collect(1) show ?thesis by (simp add: inv_scraper_def)
  qed
qed

lemma reachable_inv:
  assumes "(step c os_r os_s)\<^sup>*\<^sup>* (init c) w"
  shows "inv_refresher c os_r w \<and> inv_scraper c os_r os_s w"
  using assms
proof (induction rule: rtranclp_induct)
  case base
  show ?case by (simp add: inv_refresher_init inv_scraper_init)
next
  case (step w w')
  then show ?case by (simp add: inv_refresher_step inv_scraper_step)
qed

lemma snd_Collect:
  "snd (Collect c order os)
     = collect_range c os (List.map_filter (cachedProcs c) order) new_scrape"
  by (simp add: Collect_def)

lemma collect_target_cache_update:
  "collect_target (c\<lparr>cachedProcs := m\<rparr>) os t ch = collect_target c os t ch"
  by (simp add: collect_target_def Let_def cong: sum.case_cong)

lemma collect_range_cache_update:
  "collect_range (c\<lparr>cachedProcs := m\<rparr>) os ts ch = collect_range c os ts ch"
  by (induction ts arbitrary: ch) (simp_all add: collect_target_cache_update Let_def)

lemma refreshed_collector:
  "fst (refreshProcessCache c os_r) = c\<lparr>cachedProcs := post_snapshot c os_r\<rparr>"
  by (cases "process_Processes os_r") (simp_all add: post_snapshot_def refreshProcessCache_def)

text \<open>
  Claim C6. In every world that a refresh and a scrape running together can reach, the
  field \<open>c.cachedProcs\<close> points to the complete map of before the refresh or to the
  complete map the refresh publishes, never to a map under construction; the \<open>range\<close>
  of a scrape reads all of its entries from one of these two maps; and the result of a
  finished scrape is the result of \<open>Collect\<close> run alone on the collector of before the
  refresh or on the collector of after it.
\<close>

theorem scrape_sees_one_snapshot:
  assumes "(step c os_r os_s)\<^sup>*\<^sup>* (init c) w"
  shows "(maps w (cachedProcs_field w) = Some (cachedProcs c) \<or>
          maps w (cachedProcs_field w) = Some (cachedProcs (fst (refreshProcessCache c os_r)))) \<and>
     (\<forall>a ks targets. scraper w = S_range a ks targets \<longrightarrow>
        (\<exists>snap visited.
           (snap = cachedProcs c \<or> snap = cachedProcs (fst (refreshProcessCache c os_r))) \<and>
           maps w a = Some snap \<and> distinct (visited @ ks) \<and> set (visited @ ks) = dom snap \<and>
           targets = List.map_filter snap visited)) \<and>
     (\<forall>out. scraper w = S_done out \<longrightarrow>
        (\<exists>order. distinct order \<and> set order = dom (cachedProcs c) \<and>
           out = snd (Collect c order os_s)) \<or>
        (\<exists>order. distinct order \<and>
           set order = dom (cachedProcs (fst (refreshProcessCache c os_r))) \<and>
           out = snd (Collect (fst (refreshProcessCache c os_r)) order os_s)))"
proof -
  from reachable_inv [OF assms]
  have r: "inv_refresher c os_r w" and s: "inv_scraper c os_r os_s w" by simp_all
  have post: "cachedProcs (fst (refreshProcessCache c os_r)) = post_snapshot c os_r"
    by (simp add: post_snapshot_def)
  have pre: "cachedProcs c = pre_snapshot c"
    by (simp add: pre_snapshot_def)
  have A: "maps w (cachedProcs_field w) = Some (pre_snapshot c) \<or>
          maps w (cachedProcs_field w) = Some (post_snapshot c os_r)"
    using r by (cases "refresher w") (auto simp: inv_refresher_def)
  have B: "\<exists>snap visited.
           (snap = pre_snapshot c \<or> snap = post_snapshot c os_r) \<and>
           maps w a = Some snap \<and> distinct (visited @ ks) \<and> set (visited @ ks) = dom snap \<and>
           targets = List.map_filter snap visited"
    if "scraper w = S_range a ks targets" for a ks targets
  proof -
    from s that obtain snap visited
      where sn: "snapshot_at c os_r w a snap"
        and d: "distinct (visited @ ks)" "set (visited @ ks) = dom snap"
          "targets = List.map_filter snap visited"
      by (auto simp: inv_scraper_def)
    from sn have "maps w a = Some snap" by (simp add: snapshot_at_def)
    with snapshot_at_either [OF sn] d show ?thesis by blast
  qed
  have C: "(\<exists>order. distinct order \<and> set order = dom (pre_snapshot c) \<and>
           out = snd (Collect c order os_s)) \<or>
        (\<exists>order. distinct order \<and> set order = dom (post_snapshot c os_r) \<and>
           out = snd (Collect (fst (refreshProcessCache c os_r)) order os_s))"
    if "scraper w = S_done out" for out
  proof -
    from s that obtain snap order
      where sn: "snap = pre_snapshot c \<or> snap = post_snapshot c os_r"
        and d: "distinct order" "set order = dom snap"
        and o: "out = collect_range c os_s (List.map_filter snap order) new_scrape"
      by (auto simp: inv_scraper_def)
    from sn show ?thesis
    proof
      assume "snap = pre_snapshot c"
      with d o have "distinct order \<and> set order = dom (pre_snapshot c) \<and>
           out = snd (Collect c order os_s)"
        by (simp add: snd_Collect pre_snapshot_def)
      then show ?thesis by blast
    next
      assume "snap = post_snapshot c os_r"
      with d o have "distinct order \<and> set order = dom (post_snapshot c os_r) \<and>
           out = snd (Collect (fst (refreshProcessCache c os_r)) order os_s)"
        by (simp add: snd_Collect refreshed_collector collect_range_cache_update)
      then show ?thesis by blast
    qed
  qed
  from A B C show ?thesis unfolding post pre by blast
qed

text \<open>
  A run in which the scrape takes its read lock first, the refresher builds the new
  (empty) map meanwhile, waits for the lock, and swaps after the scrape has released it:
  the scrape returns what \<open>Collect\<close> returns on the cache of before the refresh.
\<close>

theorem scrape_sees_one_snapshot_witness:
  "\<exists>w. (step c_nginx os_exited os_boot)\<^sup>*\<^sup>* (init c_nginx) w \<and>
        refresher w = R_done \<and>
        cachedProcs (fst (refreshProcessCache c_nginx os_exited)) = Map.empty \<and>
        maps w (cachedProcs_field w) = Some Map.empty \<and>
        scraper w = S_done (snd (Collect c_nginx [101] os_boot)) \<and>
        ((\<exists>order. distinct order \<and> set order = dom (cachedProcs c_nginx) \<and>
            snd (Collect c_nginx [101] os_boot) = snd (Collect c_nginx order os_boot)) \<or>
         (\<exists>order. distinct order \<and>
            set order = dom (cachedProcs (fst (refreshProcessCache c_nginx os_exited))) \<and>
            snd (Collect c_nginx [101] os_boot)
              = snd (Collect (fst (refreshProcessCache c_nginx os_exited)) order os_boot)))"
proof -
  let ?step = "step c_nginx os_exited os_boot"
  have cache: "cachedProcs c_nginx = [101 \<mapsto> entry_101]"
    by (simp add: c_nginx_eq)
  have procs: "process_Processes os_exited = Inr [\<lparr>Pid = 102\<rparr>, \<lparr>Pid = 104\<rparr>]"
    by (simp add: os_exited_def)
  have skip: "refresh_range c_nginx os_exited [\<lparr>Pid = 102\<rparr>] m = m"
    "refresh_range c_nginx os_exited [\<lparr>Pid = 104\<rparr>] m = m" for m
    by (simp_all add: os_exited_def pid_query_def isTarget_def c_nginx_eq
          NewProcessCollector_def)
  have post: "cachedProcs (fst (refreshProcessCache c_nginx os_exited)) = Map.empty"
    by (simp add: refreshProcessCache_def procs os_exited_def pid_query_def isTarget_def
          c_nginx_eq NewProcessCollector_def)
  define w0 where "w0 = init c_nginx"
  define w1 where "w1 = w0\<lparr>readers := readers w0 + 1, scraper := S_rlocked\<rparr>"
  define w2 where "w2 = w1\<lparr>maps := (maps w1)(1 \<mapsto> Map.empty),
                           refresher := R_range 1 [\<lparr>Pid = 102\<rparr>, \<lparr>Pid = 104\<rparr>]\<rparr>"
  define w3 where "w3 = w2\<lparr>maps := (maps w2)(1 \<mapsto>
                             refresh_range c_nginx os_exited [\<lparr>Pid = 102\<rparr>] Map.empty),
                           refresher := R_range 1 [\<lparr>Pid = 104\<rparr>]\<rparr>"
  define w4 where "w4 = w3\<lparr>maps := (maps w3)(1 \<mapsto>
                             refresh_range c_nginx os_exited [\<lparr>Pid = 104\<rparr>] Map.empty),
                           refresher := R_range 1 []\<rparr>"
  define w5 where "w5 = w4\<lparr>scraper := S_range (cachedProcs_field w4) [101] []\<rparr>"
  define w6 where "w6 = w5\<lparr>scraper := S_range 0 [] ([] @ [entry_101])\<rparr>"
  define w7 where "w7 = w6\<lparr>readers := readers w6 - 1, scraper := S_unlocked [entry_101]\<rparr>"
  define w8 where "w8 = w7\<lparr>writer := True, refresher := R_locked 1\<rparr>"
  define w9 where "w9 = w8\<lparr>cachedProcs_field := 1, refresher := R_swapped\<rparr>"
  define w10 where "w10 = w9\<lparr>writer := False, refresher := R_done\<rparr>"
  define w11 where
    "w11 = w10\<lparr>scraper := S_done (collect_range c_nginx os_boot [entry_101] new_scrape)\<rparr>"
  note ws = w0_def w1_def w2_def w3_def w4_def w5_def w6_def w7_def w8_def w9_def w10_def
    w11_def init_def
  have s1: "?step w0 w1"
    unfolding w1_def by (rule step.scrape_rlock) (simp_all add: w0_def init_def)
  have s2: "?step w1 w2"
    unfolding w2_def by (rule step.refresh_make) (simp_all add: w1_def w0_def init_def procs)
  have s3: "?step w2 w3"
    unfolding w3_def by (rule step.refresh_next) (simp_all add: w2_def w1_def w0_def init_def)
  have s4: "?step w3 w4"
    unfolding w4_def
    by (rule step.refresh_next)
       (simp_all add: w3_def w2_def w1_def w0_def init_def skip del: refresh_range.simps)
  have s5: "?step w4 w5"
    unfolding w5_def
    by (rule step.scrape_range [where m = "[101 \<mapsto> entry_101]"])
       (simp_all add: w4_def w3_def w2_def w1_def w0_def init_def cache)
  have f5: "cachedProcs_field w4 = 0"
    by (simp add: w4_def w3_def w2_def w1_def w0_def init_def)
  have s6: "?step w5 w6"
    unfolding w6_def
    by (rule step.scrape_next [where m = "[101 \<mapsto> entry_101]"])
       (simp_all add: w5_def f5 w4_def w3_def w2_def w1_def w0_def init_def cache)
  have s7: "?step w6 w7"
    unfolding w7_def by (rule step.scrape_runlock [where a = 0]) (simp add: w6_def)
  have s8: "?step w7 w8"
    unfolding w8_def
    by (rule step.refresh_lock)
       (simp_all add: w7_def w6_def w5_def w4_def w3_def w2_def w1_def w0_def init_def)
  have s9: "?step w8 w9"
    unfolding w9_def by (rule step.refresh_swap) (simp add: w8_def)
  have s10: "?step w9 w10"
    unfolding w10_def by (rule step.refresh_unlock) (simp add: w9_def)
  have s11: "?step w10 w11"
    unfolding w11_def
    by (rule step.scrape_collect) (simp add: w10_def w9_def w8_def w7_def)
  have "?step\<^sup>*\<^sup>* w0 w0" by simp
  from this s1 have "?step\<^sup>*\<^sup>* w0 w1" by (rule rtranclp.rtrancl_into_rtrancl)
  from this s2 have "?step\<^sup>*\<^sup>* w0 w2" by (rule rtranclp.rtrancl_into_rtrancl)
  from this s3 have "?step\<^sup>*\<^sup>* w0 w3" by (rule rtranclp.rtrancl_into_rtrancl)
  from this s4 have "?step\<^sup>*\<^sup>* w0 w4" by (rule rtranclp.rtrancl_into_rtrancl)
  from this s5 have "?step\<^sup>*\<^sup>* w0 w5" by (rule rtranclp.rtrancl_into_rtrancl)
  from this s6 have "?step\<^sup>*\<^sup>* w0 w6" by (rule rtranclp.rtrancl_into_rtrancl)
  from this s7 have "?step\<^sup>*\<^sup>* w0 w7" by (rule rtranclp.rtrancl_into_rtrancl)
  from this s8 have "?step\<^sup>*\<^sup>* w0 w8" by (rule rtranclp.rtrancl_into_rtrancl)
  from this s9 have "?step\<^sup>*\<^sup>* w0 w9" by (rule rtranclp.rtrancl_into_rtrancl)
  from this s10 have "?step\<^sup>*\<^sup>* w0 w10" by (rule rtranclp.rtrancl_into_rtrancl)
  from this s11 have "?step\<^sup>*\<^sup>* w0 w11" by (rule rtranclp.rtrancl_into_rtrancl)
  then have reach: "?step\<^sup>*\<^sup>* (init c_nginx) w11" by (simp add: w0_def)
  have r: "refresher w11 = R_done" by (simp add: w11_def w10_def)
  have m: "maps w11 (cachedProcs_field w11) = Some Map.empty"
    by (simp add: w11_def w10_def w9_def w8_def w7_def w6_def w5_def w4_def skip
          del: refresh_range.simps)
  have "snd (Collect c_nginx [101] os_boot) = collect_range c_nginx os_boot [entry_101] new_scrape"
    by (simp add: snd_Collect cache List.map_filter_simps)
  then have d: "scraper w11 = S_done (snd (Collect c_nginx [101] os_boot))"
    by (simp add: w11_def)
  from scrape_sees_one_snapshot [OF reach] d
  have e: "(\<exists>order. distinct order \<and> set order = dom (cachedProcs c_nginx) \<and>
            snd (Collect c_nginx [101] os_boot) = snd (Collect c_nginx order os_boot)) \<or>
         (\<exists>order. distinct order \<and>
            set order = dom (cachedProcs (fst (refreshProcessCache c_nginx os_exited))) \<and>
            snd (Collect c_nginx [101] os_boot)
              = snd (Collect (fst (refreshProcessCache c_nginx os_exited)) order os_boot))"
    by blast
  from reach r post m d e show ?thesis by blast
qed

end
